theory Spec2Isabelle
  imports Main "HOL-Library.Word"
begin

section \<open>Python values read by thug/AST/AST2.py\<close>

text \<open>
  The module walks the tree returned by \<^verbatim>\<open>esprima.toDict\<close>: nested dicts and lists
  whose leaves are strings, numbers and None. It reads the tree with \<^verbatim>\<open>key in x\<close>,
  \<^verbatim>\<open>x[key]\<close>, \<^verbatim>\<open>x.get(key, None)\<close>, \<^verbatim>\<open>for item in x\<close> and truth tests, and
  never checks that \<^verbatim>\<open>x\<close> is a dict first, so each of these is modelled on every kind
  of value, with the exception Python 3 raises there.

  A Python \<^verbatim>\<open>str\<close> is a list of code points (a \<^typ>\<open>string\<close> of HOL holds 8-bit
  characters only, and the latin1 encoding of \<^verbatim>\<open>add_shellcode\<close> fails exactly on a code
  point above 255). \<open>u\<close> turns a string literal of the source into that form.
  A dict is an association list read with \<^const>\<open>map_of\<close>. Python's \<^verbatim>\<open>True\<close> and
  \<^verbatim>\<open>False\<close> are the integers 1 and 0 (\<^verbatim>\<open>bool\<close> is a subclass of \<^verbatim>\<open>int\<close> and
  \<^verbatim>\<open>True == 1\<close>), so they are \<open>PInt 1\<close> and \<open>PInt 0\<close>; floating point numbers are not
  modelled.
\<close>

type_synonym ustr = "nat list"

type_synonym bytes = "8 word list"

definition u :: "string \<Rightarrow> ustr" where
  "u s = map of_char s"

datatype pyval =
    PNone
  | PInt int
  | PStr ustr
  | PList "pyval list"
  | PDict "(ustr \<times> pyval) list"

datatype error = KeyError | TypeError | AttributeError | RecursionError | ParserError

text \<open>Truth value of an object, as \<^verbatim>\<open>if x:\<close> tests it.\<close>

fun truthy :: "pyval \<Rightarrow> bool" where
  "truthy PNone = False"
| "truthy (PInt n) = (n \<noteq> 0)"
| "truthy (PStr s) = (s \<noteq> [])"
| "truthy (PList xs) = (xs \<noteq> [])"
| "truthy (PDict kvs) = (kvs \<noteq> [])"

fun startswith :: "ustr \<Rightarrow> ustr \<Rightarrow> bool" where
  "startswith [] s = True"
| "startswith (c # cs) [] = False"
| "startswith (c # cs) (d # ds) = (c = d \<and> startswith cs ds)"

fun substring :: "ustr \<Rightarrow> ustr \<Rightarrow> bool" where
  "substring k [] = (k = [])"
| "substring k (c # cs) = (startswith k (c # cs) \<or> substring k cs)"

text \<open>
  \<^verbatim>\<open>key in x\<close> for a string key: key membership in a dict, element membership in a
  list, substring test in a string, TypeError otherwise.
\<close>

fun py_contains :: "ustr \<Rightarrow> pyval \<Rightarrow> error + bool" where
  "py_contains k (PDict kvs) = Inr (map_of kvs k \<noteq> None)"
| "py_contains k (PList xs) = Inr (PStr k \<in> set xs)"
| "py_contains k (PStr s) = Inr (substring k s)"
| "py_contains k (PInt n) = Inl TypeError"
| "py_contains k PNone = Inl TypeError"

text \<open>\<^verbatim>\<open>x[key]\<close> for a string key: KeyError on a dict without it, TypeError on anything else.\<close>

fun py_getitem :: "pyval \<Rightarrow> ustr \<Rightarrow> error + pyval" where
  "py_getitem (PDict kvs) k = (case map_of kvs k of None \<Rightarrow> Inl KeyError | Some v \<Rightarrow> Inr v)"
| "py_getitem (PList xs) k = Inl TypeError"
| "py_getitem (PStr s) k = Inl TypeError"
| "py_getitem (PInt n) k = Inl TypeError"
| "py_getitem PNone k = Inl TypeError"

text \<open>\<^verbatim>\<open>x.get(key, None)\<close>: only a dict has the method.\<close>

fun py_get :: "pyval \<Rightarrow> ustr \<Rightarrow> error + pyval" where
  "py_get (PDict kvs) k = (case map_of kvs k of None \<Rightarrow> Inr PNone | Some v \<Rightarrow> Inr v)"
| "py_get (PList xs) k = Inl AttributeError"
| "py_get (PStr s) k = Inl AttributeError"
| "py_get (PInt n) k = Inl AttributeError"
| "py_get PNone k = Inl AttributeError"

text \<open>
  The items \<^verbatim>\<open>for item in x\<close> runs over: the elements of a list, the keys of a dict,
  the characters of a string (each a string of length one).
\<close>

fun py_iter :: "pyval \<Rightarrow> error + pyval list" where
  "py_iter (PList xs) = Inr xs"
| "py_iter (PDict kvs) = Inr (map (\<lambda>kv. PStr (fst kv)) kvs)"
| "py_iter (PStr s) = Inr (map (\<lambda>c. PStr [c]) s)"
| "py_iter (PInt n) = Inl TypeError"
| "py_iter PNone = Inl TypeError"

text \<open>A \<^verbatim>\<open>for\<close> loop whose body may raise: the first exception ends the loop.\<close>

fun for_loop :: "('a \<Rightarrow> 's \<Rightarrow> error + 's) \<Rightarrow> 'a list \<Rightarrow> 's \<Rightarrow> error + 's" where
  "for_loop f [] st = Inr st"
| "for_loop f (x # xs) st = (case f x st of Inl e \<Rightarrow> Inl e | Inr st' \<Rightarrow> for_loop f xs st')"

section \<open>The state of an AST object\<close>

text \<open>
  \<^verbatim>\<open>self.names\<close> and \<^verbatim>\<open>self.assignments\<close> are lists of dicts, and
  \<^verbatim>\<open>onVariableDeclaration\<close> appends one dict object to both and writes its
  \<^verbatim>\<open>'value'\<close> key after the first append. The dicts therefore live in a store
  (\<open>heap\<close>, addressed by position), and the two lists hold addresses.
  A breakpoint dict is never written after it is built, so \<^verbatim>\<open>self.breakpoints\<close> holds
  values. \<^verbatim>\<open>self.calls\<close> and \<^verbatim>\<open>self.window\<close> are set by the constructor and never
  read or written again; they are left out.

  \<open>thug_logging\<close> is what \<^verbatim>\<open>log.ThugLogging.shellcodes\<close> resolves to: \<open>None\<close> when
  the logger has no such attribute (the lookup raises), otherwise the collaborator,
  whose \<^verbatim>\<open>add\<close> either stores the bytes or raises.
\<close>

record binding =
  b_name :: pyval
  b_scope :: pyval
  b_value :: "pyval option"

record breakpoint =
  bp_type :: int
  bp_line :: pyval
  bp_scope :: pyval

datatype registry = Registry "bytes set" | FailingRegistry

record ast_state =
  heap :: "binding list"
  names :: "nat list"
  assignments :: "nat list"
  breakpoints :: "breakpoint list"
  shellcodes :: "pyval set"
  thug_logging :: "registry option"

definition ASSIGN_BREAKPOINT :: int where
  "ASSIGN_BREAKPOINT = 0"

definition LOOP_BREAKPOINT :: int where
  "LOOP_BREAKPOINT = 1"

definition ASSIGN_OPERATORS :: "pyval list" where
  "ASSIGN_OPERATORS =
     [PStr (u ''=''), PStr (u ''+=''), PStr (u ''-=''), PStr (u ''*=''), PStr (u ''/=''),
      PStr (u ''%=''), PStr (u ''<<=''), PStr (u ''>>=''), PStr (u ''>>>=''),
      PStr (u ''|=''), PStr (u ''^=''), PStr (u ''&='')]"

text \<open>The dicts a list of addresses denotes: what a reader of the list sees.\<close>

definition deref :: "ast_state \<Rightarrow> nat list \<Rightarrow> binding list" where
  "deref st as = map (\<lambda>a. heap st ! a) as"

definition names_out :: "ast_state \<Rightarrow> binding list" where
  "names_out st = deref st (names st)"

definition assignments_out :: "ast_state \<Rightarrow> binding list" where
  "assignments_out st = deref st (assignments st)"

text \<open>The object the constructor builds before it parses.\<close>

definition empty_state :: "registry option \<Rightarrow> ast_state" where
  "empty_state reg =
     \<lparr>heap = [], names = [], assignments = [], breakpoints = [], shellcodes = {},
      thug_logging = reg\<rparr>"

section \<open>The handlers that do not recurse\<close>

definition set_breakpoint :: "pyval \<Rightarrow> pyval \<Rightarrow> int \<Rightarrow> ast_state \<Rightarrow> error + ast_state" where
  "set_breakpoint stmt scope ty st =
     (case py_getitem stmt (u ''loc'') of Inl e \<Rightarrow> Inl e | Inr loc \<Rightarrow>
      (case py_getitem loc (u ''end'') of Inl e \<Rightarrow> Inl e | Inr en \<Rightarrow>
       (case py_getitem en (u ''line'') of Inl e \<Rightarrow> Inl e | Inr line \<Rightarrow>
          (let bp = \<lparr>bp_type = ty, bp_line = line, bp_scope = scope\<rparr>
           in if bp \<notin> set (breakpoints st)
              then Inr (st\<lparr>breakpoints := breakpoints st @ [bp]\<rparr>)
              else Inr st))))"

text \<open>
  \<^verbatim>\<open>sc.encode('latin1')\<close>: one byte per code point, UnicodeEncodeError (here
  \<open>None\<close>) when a code point is above 255.
\<close>

definition encode_latin1 :: "ustr \<Rightarrow> bytes option" where
  "encode_latin1 s = (if list_all (\<lambda>c. c < 256) s then Some (map of_nat s) else None)"

fun registry_add :: "bytes \<Rightarrow> registry \<Rightarrow> registry option" where
  "registry_add b (Registry S) = Some (Registry (insert b S))"
| "registry_add b FailingRegistry = None"

text \<open>
  The \<^verbatim>\<open>try\<close> block of \<^verbatim>\<open>add_shellcode\<close>: \<open>None\<close> when anything in
  \<^verbatim>\<open>log.ThugLogging.shellcodes.add(sc.encode('latin1'))\<close> raises, otherwise the
  collaborator after the call.
\<close>

definition forward_shellcode :: "ustr \<Rightarrow> registry option \<Rightarrow> registry option" where
  "forward_shellcode s reg =
     (case reg of None \<Rightarrow> None
      | Some r \<Rightarrow> (case encode_latin1 s of None \<Rightarrow> None | Some b \<Rightarrow> registry_add b r))"

text \<open>
  The tree holds no bytes object, so the \<^verbatim>\<open>isinstance\<close> test of \<^verbatim>\<open>add_shellcode\<close>
  passes exactly on a \<open>PStr\<close>. The bare \<^verbatim>\<open>except\<close> catches every exception: the
  function never raises.
\<close>

fun add_shellcode :: "pyval \<Rightarrow> ast_state \<Rightarrow> ast_state" where
  "add_shellcode (PStr s) st =
     (if length s < 32 then st
      else (case forward_shellcode s (thug_logging st) of
              Some r \<Rightarrow> st\<lparr>thug_logging := Some r\<rparr>
            | None \<Rightarrow> st\<lparr>shellcodes := insert (PStr s) (shellcodes st)\<rparr>))"
| "add_shellcode PNone st = st"
| "add_shellcode (PInt n) st = st"
| "add_shellcode (PList xs) st = st"
| "add_shellcode (PDict kvs) st = st"

definition onLiteral :: "pyval \<Rightarrow> pyval \<Rightarrow> ast_state \<Rightarrow> error + ast_state" where
  "onLiteral litr scope st =
     (if \<not> truthy litr then Inr st
      else (case py_get litr (u ''value'') of Inl e \<Rightarrow> Inl e | Inr v \<Rightarrow>
              if truthy v then Inr (add_shellcode v st) else Inr st))"

definition onReturnStatement :: "pyval \<Rightarrow> pyval \<Rightarrow> ast_state \<Rightarrow> error + ast_state" where
  "onReturnStatement stmt scope st =
     (if \<not> truthy stmt then Inr st
      else (case py_contains (u ''argument'') stmt of Inl e \<Rightarrow> Inl e | Inr has_arg \<Rightarrow>
        if \<not> has_arg then Inr st
        else (case py_getitem stmt (u ''argument'') of Inl e \<Rightarrow> Inl e | Inr arg \<Rightarrow>
          (case py_get arg (u ''value'') of Inl e \<Rightarrow> Inl e | Inr v \<Rightarrow>
             if truthy v then Inr (add_shellcode v st) else Inr st))))"

text \<open>The body of the loop of \<^verbatim>\<open>handleCallExpression\<close> over the arguments.\<close>

definition call_argument :: "pyval \<Rightarrow> pyval \<Rightarrow> ast_state \<Rightarrow> error + ast_state" where
  "call_argument scope p st =
     (case py_contains (u ''type'') p of Inl e \<Rightarrow> Inl e | Inr has_type \<Rightarrow>
        if \<not> has_type then Inr st
        else (case py_getitem p (u ''type'') of Inl e \<Rightarrow> Inl e | Inr ty \<Rightarrow>
          if ty \<in> set [PStr (u ''Literal'')] then onLiteral p scope st else Inr st))"

definition handleCallExpression :: "pyval \<Rightarrow> pyval \<Rightarrow> ast_state \<Rightarrow> error + ast_state" where
  "handleCallExpression stmt scope st =
     (case py_contains (u ''expression'') stmt of Inl e \<Rightarrow> Inl e | Inr has_expr \<Rightarrow>
        if \<not> has_expr then Inr st
        else (case py_getitem stmt (u ''expression'') of Inl e \<Rightarrow> Inl e | Inr expr \<Rightarrow>
          (case py_contains (u ''arguments'') expr of Inl e \<Rightarrow> Inl e | Inr has_args \<Rightarrow>
            if \<not> has_args then Inr st
            else (case py_getitem expr (u ''arguments'') of Inl e \<Rightarrow> Inl e | Inr args \<Rightarrow>
              (case py_iter args of Inl e \<Rightarrow> Inl e | Inr ps \<Rightarrow>
                 for_loop (call_argument scope) ps st)))))"

text \<open>
  Both \<^verbatim>\<open>onVariableDeclaration\<close> and \<^verbatim>\<open>handleAssignmentExpression\<close> build a dict
  \<^verbatim>\<open>name = {'name': n, 'scope': scope}\<close> and run
  \<^verbatim>\<open>if name not in self.names: self.names.append(name)\<close>. \<open>record_name\<close> is that
  pair of statements: the dict is allocated at the fresh address \<open>length (heap st)\<close>,
  compared with the dicts the list holds at that moment, and its address appended.
\<close>

definition record_name :: "pyval \<Rightarrow> pyval \<Rightarrow> ast_state \<Rightarrow> ast_state" where
  "record_name n scope st =
     (let name = \<lparr>b_name = n, b_scope = scope, b_value = None\<rparr>;
          a = length (heap st);
          st1 = st\<lparr>heap := heap st @ [name]\<rparr>
      in if name \<notin> set (deref st1 (names st1))
         then st1\<lparr>names := names st1 @ [a]\<rparr> else st1)"

text \<open>
  \<^verbatim>\<open>name['value'] = raw\<close> followed by
  \<^verbatim>\<open>if name not in self.assignments: self.assignments.append(name)\<close>, for the dict at
  address \<open>a\<close>: the store is written there, whether or not \<^verbatim>\<open>self.names\<close> holds the
  address.
\<close>

definition record_value :: "nat \<Rightarrow> pyval \<Rightarrow> ast_state \<Rightarrow> ast_state" where
  "record_value a raw st =
     (let name = (heap st ! a)\<lparr>b_value := Some raw\<rparr>;
          st1 = st\<lparr>heap := (heap st)[a := name]\<rparr>
      in if name \<notin> set (deref st1 (assignments st1))
         then st1\<lparr>assignments := assignments st1 @ [a]\<rparr> else st1)"

text \<open>The body of the loop of \<^verbatim>\<open>onVariableDeclaration\<close> over the declarators.\<close>

definition declarator :: "pyval \<Rightarrow> pyval \<Rightarrow> ast_state \<Rightarrow> error + ast_state" where
  "declarator scope decl st =
     (case py_contains (u ''type'') decl of Inl e \<Rightarrow> Inl e | Inr has_type \<Rightarrow>
      if \<not> has_type then Inr st
      else (case py_getitem decl (u ''type'') of Inl e \<Rightarrow> Inl e | Inr ty \<Rightarrow>
      if ty \<notin> set [PStr (u ''VariableDeclarator'')] then Inr st
      else (case py_getitem decl (u ''id'') of Inl e \<Rightarrow> Inl e | Inr target \<Rightarrow>
      (case py_getitem target (u ''name'') of Inl e \<Rightarrow> Inl e | Inr n \<Rightarrow>
        (let a = length (heap st);
             st2 = record_name n scope st
         in (case py_contains (u ''init'') decl of Inl e \<Rightarrow> Inl e | Inr has_init \<Rightarrow>
             if \<not> has_init then Inr st2
             else (case set_breakpoint decl scope ASSIGN_BREAKPOINT st2 of Inl e \<Rightarrow> Inl e
                   | Inr st3 \<Rightarrow>
               (case py_getitem decl (u ''init'') of Inl e \<Rightarrow> Inl e | Inr init \<Rightarrow>
               (case py_contains (u ''raw'') init of Inl e \<Rightarrow> Inl e | Inr has_raw \<Rightarrow>
                if \<not> has_raw then Inr st3
                else (case py_getitem init (u ''raw'') of Inl e \<Rightarrow> Inl e | Inr raw \<Rightarrow>
                        Inr (record_value a raw st3)))))))))))"

definition onVariableDeclaration :: "pyval \<Rightarrow> pyval \<Rightarrow> ast_state \<Rightarrow> error + ast_state" where
  "onVariableDeclaration item scope st =
     (case py_contains (u ''declarations'') item of Inl e \<Rightarrow> Inl e | Inr has_decls \<Rightarrow>
        if \<not> has_decls then Inr st
        else (case py_getitem item (u ''declarations'') of Inl e \<Rightarrow> Inl e | Inr decls \<Rightarrow>
          (case py_iter decls of Inl e \<Rightarrow> Inl e | Inr ds \<Rightarrow>
             for_loop (declarator scope) ds st)))"

definition onForStatement :: "pyval \<Rightarrow> pyval \<Rightarrow> ast_state \<Rightarrow> error + ast_state" where
  "onForStatement stmt scope st = set_breakpoint stmt scope LOOP_BREAKPOINT st"

definition onWhileStatement :: "pyval \<Rightarrow> pyval \<Rightarrow> ast_state \<Rightarrow> error + ast_state" where
  "onWhileStatement stmt scope st = set_breakpoint stmt scope LOOP_BREAKPOINT st"

definition onDoWhileStatement :: "pyval \<Rightarrow> pyval \<Rightarrow> ast_state \<Rightarrow> error + ast_state" where
  "onDoWhileStatement stmt scope st = set_breakpoint stmt scope LOOP_BREAKPOINT st"

definition onForInStatement :: "pyval \<Rightarrow> pyval \<Rightarrow> ast_state \<Rightarrow> error + ast_state" where
  "onForInStatement stmt scope st = set_breakpoint stmt scope LOOP_BREAKPOINT st"

section \<open>The dispatcher and the handlers that recurse\<close>

text \<open>
  \<^verbatim>\<open>getattr(self, "on{}".format(item['type']), None)\<close>: the methods of the class whose
  name starts with \<^verbatim>\<open>on\<close>. A type that is not a string formats to a text that names
  no method.
\<close>

datatype handler =
    OnExpressionStatement | OnVariableDeclaration | OnFunctionDeclaration | OnIfStatement
  | OnForStatement | OnWhileStatement | OnDoWhileStatement | OnForInStatement
  | OnLiteral | OnReturnStatement

definition on_handler :: "pyval \<Rightarrow> handler option" where
  "on_handler ty =
     (case ty of
        PStr s \<Rightarrow>
          map_of [(u ''ExpressionStatement'', OnExpressionStatement),
                  (u ''VariableDeclaration'', OnVariableDeclaration),
                  (u ''FunctionDeclaration'', OnFunctionDeclaration),
                  (u ''IfStatement'', OnIfStatement),
                  (u ''ForStatement'', OnForStatement),
                  (u ''WhileStatement'', OnWhileStatement),
                  (u ''DoWhileStatement'', OnDoWhileStatement),
                  (u ''ForInStatement'', OnForInStatement),
                  (u ''Literal'', OnLiteral),
                  (u ''ReturnStatement'', OnReturnStatement)] s
      | _ \<Rightarrow> None)"

text \<open>\<^verbatim>\<open>getattr(self, 'handle{}'.format(stmt['expression']['type']), None)\<close>.\<close>

datatype expr_handler = HandleAssignmentExpression | HandleCallExpression

definition handle_handler :: "pyval \<Rightarrow> expr_handler option" where
  "handle_handler ty =
     (case ty of
        PStr s \<Rightarrow>
          map_of [(u ''AssignmentExpression'', HandleAssignmentExpression),
                  (u ''CallExpression'', HandleCallExpression)] s
      | _ \<Rightarrow> None)"

text \<open>
  \<^verbatim>\<open>walk\<close>, \<^verbatim>\<open>_walk\<close> (here \<open>walk_item\<close>) and the handlers that call them.
  \<open>walk\<close> is the method called with a body, as \<^verbatim>\<open>onFunctionDeclaration\<close> and
  \<^verbatim>\<open>onIfStatement\<close> call it. When that body is None the method takes
  \<^verbatim>\<open>self.ast['body']\<close> instead and starts the whole traversal again; no branch of
  this module depends on the scope or on what was recorded, so the second traversal
  reaches the same call again, and Python ends the descent with RecursionError.
  (\<^verbatim>\<open>esprima.toDict\<close> drops every field whose value is None, so this needs a tree
  that did not come from the parser.)
\<close>

lemma for_loop_cong [fundef_cong]:
  "xs = ys \<Longrightarrow> st = st' \<Longrightarrow> (\<And>x s. x \<in> set ys \<Longrightarrow> f x s = g x s) \<Longrightarrow> for_loop f xs st = for_loop g ys st'"
  by (induction ys arbitrary: xs st st') (auto split: sum.splits)

lemma map_of_size: "map_of kvs k = Some v \<Longrightarrow> size v < size_list (size_prod (\<lambda>x. 0) size) kvs + Suc 0"
  by (induction kvs) (auto split: if_splits)

lemma py_getitem_size: "py_getitem d k = Inr v \<Longrightarrow> size v < size d"
  by (cases d) (auto split: option.splits dest: map_of_size)

lemma py_get_size: "py_get d k = Inr v \<Longrightarrow> size v < size d"
  by (cases d) (auto split: option.splits dest: map_of_size)

lemma elem_size: "x \<in> set xs \<Longrightarrow> size (x::pyval) \<le> size_list size xs"
  by (induction xs) auto

lemma py_iter_size: "py_iter b = Inr xs \<Longrightarrow> x \<in> set xs \<Longrightarrow> size x \<le> size b"
  by (cases b) (auto dest: elem_size)

function (sequential)
    walk :: "pyval \<Rightarrow> pyval \<Rightarrow> ast_state \<Rightarrow> error + ast_state"
and walk_item :: "pyval \<Rightarrow> pyval \<Rightarrow> ast_state \<Rightarrow> error + ast_state"
and onExpressionStatement :: "pyval \<Rightarrow> pyval \<Rightarrow> ast_state \<Rightarrow> error + ast_state"
and handleAssignmentExpression :: "pyval \<Rightarrow> pyval \<Rightarrow> ast_state \<Rightarrow> error + ast_state"
and onFunctionDeclaration :: "pyval \<Rightarrow> pyval \<Rightarrow> ast_state \<Rightarrow> error + ast_state"
and onIfStatement :: "pyval \<Rightarrow> pyval \<Rightarrow> ast_state \<Rightarrow> error + ast_state"
where
  "walk body scope st =
     (if body = PNone then Inl RecursionError
      else (case py_iter body of Inl e \<Rightarrow> Inl e | Inr items \<Rightarrow>
              for_loop (\<lambda>item. walk_item item scope) items st))"
| "walk_item item scope st =
     (case py_getitem item (u ''type'') of Inl e \<Rightarrow> Inl e | Inr ty \<Rightarrow>
        (case on_handler ty of
           None \<Rightarrow> Inr st
         | Some OnExpressionStatement \<Rightarrow> onExpressionStatement item scope st
         | Some OnVariableDeclaration \<Rightarrow> onVariableDeclaration item scope st
         | Some OnFunctionDeclaration \<Rightarrow> onFunctionDeclaration item scope st
         | Some OnIfStatement \<Rightarrow> onIfStatement item scope st
         | Some OnForStatement \<Rightarrow> onForStatement item scope st
         | Some OnWhileStatement \<Rightarrow> onWhileStatement item scope st
         | Some OnDoWhileStatement \<Rightarrow> onDoWhileStatement item scope st
         | Some OnForInStatement \<Rightarrow> onForInStatement item scope st
         | Some OnLiteral \<Rightarrow> onLiteral item scope st
         | Some OnReturnStatement \<Rightarrow> onReturnStatement item scope st))"
| "onExpressionStatement stmt scope st =
     (case py_contains (u ''expression'') stmt of Inl e \<Rightarrow> Inl e | Inr has_expr \<Rightarrow>
      if \<not> has_expr then Inr st
      else (case py_getitem stmt (u ''expression'') of Inl e \<Rightarrow> Inl e | Inr expr \<Rightarrow>
      (case py_contains (u ''type'') expr of Inl e \<Rightarrow> Inl e | Inr has_type \<Rightarrow>
      if \<not> has_type then Inr st
      else (case py_getitem expr (u ''type'') of Inl e \<Rightarrow> Inl e | Inr ty \<Rightarrow>
        (case handle_handler ty of
           None \<Rightarrow> Inr st
         | Some HandleAssignmentExpression \<Rightarrow> handleAssignmentExpression stmt scope st
         | Some HandleCallExpression \<Rightarrow> handleCallExpression stmt scope st)))))"
| "handleAssignmentExpression stmt scope st =
     (case py_contains (u ''expression'') stmt of Inl e \<Rightarrow> Inl e | Inr has_expr \<Rightarrow>
      if \<not> has_expr then Inr st
      else (case py_getitem stmt (u ''expression'') of Inl e \<Rightarrow> Inl e | Inr expr \<Rightarrow>
      (case py_contains (u ''operator'') expr of Inl e \<Rightarrow> Inl e | Inr has_op \<Rightarrow>
      if \<not> has_op then Inr st
      else (case py_getitem expr (u ''operator'') of Inl e \<Rightarrow> Inl e | Inr op \<Rightarrow>
      if op \<notin> set ASSIGN_OPERATORS then Inr st
      else (case py_getitem expr (u ''left'') of Inl e \<Rightarrow> Inl e | Inr left \<Rightarrow>
      (case py_contains (u ''name'') left of Inl e \<Rightarrow> Inl e | Inr has_name \<Rightarrow>
      (case (if has_name
             then (case py_getitem left (u ''name'') of Inl e \<Rightarrow> Inl e | Inr n \<Rightarrow>
                     Inr (record_name n scope st))
             else Inr st) of Inl e \<Rightarrow> Inl e | Inr st2 \<Rightarrow>
      (case walk_item left scope st2 of Inl e \<Rightarrow> Inl e | Inr st3 \<Rightarrow>
      (case py_getitem expr (u ''right'') of Inl e \<Rightarrow> Inl e | Inr right \<Rightarrow>
      (case walk_item right scope st3 of Inl e \<Rightarrow> Inl e | Inr st4 \<Rightarrow>
         set_breakpoint stmt scope ASSIGN_BREAKPOINT st4))))))))))"
| "onFunctionDeclaration decl scope st =
     (case py_contains (u ''id'') decl of Inl e \<Rightarrow> Inl e | Inr has_id \<Rightarrow>
      if \<not> has_id then Inr st
      else (case py_getitem decl (u ''id'') of Inl e \<Rightarrow> Inl e | Inr target \<Rightarrow>
      (case py_contains (u ''name'') target of Inl e \<Rightarrow> Inl e | Inr has_name \<Rightarrow>
      if \<not> has_name then Inr st
      else (case py_getitem target (u ''name'') of Inl e \<Rightarrow> Inl e | Inr func_name \<Rightarrow>
      (case py_contains (u ''body'') decl of Inl e \<Rightarrow> Inl e | Inr has_body \<Rightarrow>
      if \<not> has_body then Inr st
      else (case py_getitem decl (u ''body'') of Inl e \<Rightarrow> Inl e | Inr blk \<Rightarrow>
      (case py_contains (u ''body'') blk of Inl e \<Rightarrow> Inl e | Inr has_stmts \<Rightarrow>
      if \<not> has_stmts then Inr st
      else (case py_getitem blk (u ''body'') of Inl e \<Rightarrow> Inl e | Inr stmts \<Rightarrow>
         walk stmts func_name st))))))))"
| "onIfStatement stmt scope st =
     (case py_contains (u ''alternate'') stmt of Inl e \<Rightarrow> Inl e | Inr has_alt \<Rightarrow>
      (case (if has_alt
             then (case py_getitem stmt (u ''alternate'') of Inl e \<Rightarrow> Inl e | Inr alt \<Rightarrow>
                   (case py_get alt (u ''body'') of Inl e \<Rightarrow> Inl e | Inr body \<Rightarrow>
                      if truthy body then walk body scope st else Inr st))
             else Inr st) of Inl e \<Rightarrow> Inl e | Inr st1 \<Rightarrow>
      (case py_contains (u ''consequent'') stmt of Inl e \<Rightarrow> Inl e | Inr has_cons \<Rightarrow>
       if has_cons
       then (case py_getitem stmt (u ''consequent'') of Inl e \<Rightarrow> Inl e | Inr cons \<Rightarrow>
             (case py_get cons (u ''body'') of Inl e \<Rightarrow> Inl e | Inr body \<Rightarrow>
                if truthy body then walk body scope st1 else Inr st1))
       else Inr st1)))"
  by pat_completeness auto

termination
  apply (relation "measures [\<lambda>x. case x of Inl (Inl (b, _)) \<Rightarrow> size b | Inl (Inr (Inl (b, _))) \<Rightarrow> size b | Inl (Inr (Inr (b, _))) \<Rightarrow> size b | Inr (Inl (b, _)) \<Rightarrow> size b | Inr (Inr (Inl (b, _))) \<Rightarrow> size b | Inr (Inr (Inr (b, _))) \<Rightarrow> size b,
     \<lambda>x. case x of Inl (Inl _) \<Rightarrow> 3 | Inl (Inr (Inl _)) \<Rightarrow> 2 | Inl (Inr (Inr _)) \<Rightarrow> 1 | Inr (Inl _) \<Rightarrow> 0 | Inr (Inr (Inl _)) \<Rightarrow> 1 | Inr (Inr (Inr _)) \<Rightarrow> (1::nat)]")
  apply (auto dest!: py_getitem_size py_get_size dest: py_iter_size)
  done



declare walk.simps [simp del] walk_item.simps [simp del] onExpressionStatement.simps [simp del]
  handleAssignmentExpression.simps [simp del] onFunctionDeclaration.simps [simp del]
  onIfStatement.simps [simp del]

section \<open>The constructor\<close>

text \<open>
  \<^verbatim>\<open>esprima.parse\<close> followed by \<^verbatim>\<open>esprima.toDict\<close> is the parameter \<open>parse\<close>: it
  returns the tree or raises. \<open>walk_top\<close> is \<^verbatim>\<open>self.walk()\<close> as the constructor
  calls it, with no body and no scope: the body is \<^verbatim>\<open>self.ast['body']\<close> and the scope
  is None. The call is outside the \<^verbatim>\<open>try\<close> block, so what it raises leaves the
  constructor.
\<close>

definition init_ast :: "(ustr \<Rightarrow> error + pyval) \<Rightarrow> ustr \<Rightarrow> error + pyval" where
  "init_ast parse script = parse script"

definition walk_top :: "pyval \<Rightarrow> ast_state \<Rightarrow> error + ast_state" where
  "walk_top ast st =
     (case py_getitem ast (u ''body'') of Inl e \<Rightarrow> Inl e | Inr body \<Rightarrow>
      (case py_iter body of Inl e \<Rightarrow> Inl e | Inr items \<Rightarrow>
         for_loop (\<lambda>item. walk_item item PNone) items st))"

definition AST_init :: "(ustr \<Rightarrow> error + pyval) \<Rightarrow> ustr \<Rightarrow> registry option \<Rightarrow> error + ast_state" where
  "AST_init parse script reg =
     (let st = empty_state reg
      in case init_ast parse script of
           Inl e \<Rightarrow> Inr st
         | Inr ast \<Rightarrow> walk_top ast st)"

section \<open>Notions of the specification\<close>

text \<open>
  A shellcode candidate is a textual value of at least 32 characters. It is recorded in a
  state when the local set holds it or the collaborator holds its latin1 bytes.
  \<open>literal_value p v\<close>: the node \<open>p\<close> is a literal whose value is \<open>v\<close> (None when
  the node has no value). \<open>is_return_of\<close> and \<open>is_call_of\<close> describe a return
  statement with its argument's value and an expression statement that is a call with
  its argument nodes.
\<close>

fun is_candidate :: "pyval \<Rightarrow> bool" where
  "is_candidate (PStr s) = (32 \<le> length s)"
| "is_candidate v = False"

definition recorded :: "pyval \<Rightarrow> ast_state \<Rightarrow> bool" where
  "recorded v st =
     (v \<in> shellcodes st \<or>
      (case v of
         PStr s \<Rightarrow>
           (case thug_logging st of
              Some (Registry S) \<Rightarrow> (case encode_latin1 s of Some b \<Rightarrow> b \<in> S | None \<Rightarrow> False)
            | _ \<Rightarrow> False)
       | _ \<Rightarrow> False))"

definition literal_value :: "pyval \<Rightarrow> pyval \<Rightarrow> bool" where
  "literal_value p v \<longleftrightarrow>
     py_getitem p (u ''type'') = Inr (PStr (u ''Literal'')) \<and> py_get p (u ''value'') = Inr v"

text \<open>
  \<open>argument_value p\<close>: what the loop of \<^verbatim>\<open>handleCallExpression\<close> gives
  \<^verbatim>\<open>add_shellcode\<close> for the argument \<open>p\<close>: the value of a literal, and nothing,
  written as the value None, for any other argument.
\<close>

definition argument_value :: "pyval \<Rightarrow> pyval" where
  "argument_value p =
     (if py_getitem p (u ''type'') = Inr (PStr (u ''Literal''))
      then (case py_get p (u ''value'') of Inr v \<Rightarrow> v | Inl e \<Rightarrow> PNone)
      else PNone)"

fun is_dict :: "pyval \<Rightarrow> bool" where
  "is_dict (PDict kvs) = True"
| "is_dict v = False"

definition is_return_of :: "pyval \<Rightarrow> pyval \<Rightarrow> bool" where
  "is_return_of stmt v \<longleftrightarrow>
     py_getitem stmt (u ''type'') = Inr (PStr (u ''ReturnStatement'')) \<and>
     (case py_getitem stmt (u ''argument'') of
        Inr arg \<Rightarrow> py_get arg (u ''value'') = Inr v
      | Inl e \<Rightarrow> False)"

definition is_call_of :: "pyval \<Rightarrow> pyval list \<Rightarrow> bool" where
  "is_call_of stmt args \<longleftrightarrow>
     py_getitem stmt (u ''type'') = Inr (PStr (u ''ExpressionStatement'')) \<and>
     (case py_getitem stmt (u ''expression'') of
        Inr expr \<Rightarrow>
          py_getitem expr (u ''type'') = Inr (PStr (u ''CallExpression'')) \<and>
          py_getitem expr (u ''arguments'') = Inr (PList args)
      | Inl e \<Rightarrow> False) \<and>
     list_all is_dict args"

text \<open>
  \<open>end_line\<close> is the line \<^verbatim>\<open>set_breakpoint\<close> reads, \<^verbatim>\<open>stmt['loc']['end']['line']\<close>;
  \<open>header_line\<close> is the line the statement starts on. \<open>add_breakpoint\<close> is the
  deduplicating append. In a well-formed state every address of the two lists is
  allocated. \<open>plain_binding\<close> is the dict \<^verbatim>\<open>{'name': n, 'scope': scope}\<close> and
  \<open>assign_point\<close> the breakpoint of an assignment.

  A node is inert when the dispatcher has no handler for its kind, or only
  \<^verbatim>\<open>onLiteral\<close>: every expression node the parser produces is. \<open>is_assignment\<close>
  describes a statement whose expression is an assignment expression with its operator
  and operands, \<open>recognized_operator\<close> says that the expression of a statement has
  one of the twelve operators, and \<open>assigns_to x stmt ln\<close> that the statement is an
  expression statement ending on line \<open>ln\<close> which assigns to the bare identifier
  \<open>x\<close> with a recognized operator. \<open>same_frame\<close>: no binding, value assignment or
  breakpoint was recorded between two states.
\<close>

definition end_line :: "pyval \<Rightarrow> error + pyval" where
  "end_line stmt =
     (case py_getitem stmt (u ''loc'') of Inl e \<Rightarrow> Inl e | Inr l \<Rightarrow>
      (case py_getitem l (u ''end'') of Inl e \<Rightarrow> Inl e | Inr en \<Rightarrow> py_getitem en (u ''line'')))"

definition header_line :: "pyval \<Rightarrow> error + pyval" where
  "header_line stmt =
     (case py_getitem stmt (u ''loc'') of Inl e \<Rightarrow> Inl e | Inr l \<Rightarrow>
      (case py_getitem l (u ''start'') of Inl e \<Rightarrow> Inl e | Inr s \<Rightarrow> py_getitem s (u ''line'')))"

definition add_breakpoint :: "breakpoint \<Rightarrow> breakpoint list \<Rightarrow> breakpoint list" where
  "add_breakpoint bp bps = (if bp \<in> set bps then bps else bps @ [bp])"

definition wf_state :: "ast_state \<Rightarrow> bool" where
  "wf_state st \<longleftrightarrow> list_all (\<lambda>a. a < length (heap st)) (names st @ assignments st)"

definition plain_binding :: "pyval \<Rightarrow> pyval \<Rightarrow> binding" where
  "plain_binding n scope = \<lparr>b_name = n, b_scope = scope, b_value = None\<rparr>"

definition assign_point :: "pyval \<Rightarrow> pyval \<Rightarrow> breakpoint" where
  "assign_point l scope = \<lparr>bp_type = ASSIGN_BREAKPOINT, bp_line = l, bp_scope = scope\<rparr>"

definition inert :: "pyval \<Rightarrow> bool" where
  "inert v \<longleftrightarrow>
     (case py_getitem v (u ''type'') of
        Inr ty \<Rightarrow> on_handler ty = None \<or> on_handler ty = Some OnLiteral
      | Inl e \<Rightarrow> False)"


definition is_assignment :: "pyval \<Rightarrow> pyval \<Rightarrow> pyval \<Rightarrow> pyval \<Rightarrow> bool" where
  "is_assignment stmt op left right \<longleftrightarrow>
     (case py_getitem stmt (u ''expression'') of
        Inr expr \<Rightarrow>
          py_getitem expr (u ''type'') = Inr (PStr (u ''AssignmentExpression'')) \<and>
          py_getitem expr (u ''operator'') = Inr op \<and>
          py_getitem expr (u ''left'') = Inr left \<and>
          py_getitem expr (u ''right'') = Inr right
      | Inl e \<Rightarrow> False)"


definition assigns_to :: "pyval \<Rightarrow> pyval \<Rightarrow> pyval \<Rightarrow> bool" where
  "assigns_to x stmt ln \<longleftrightarrow>
     py_getitem stmt (u ''type'') = Inr (PStr (u ''ExpressionStatement'')) \<and>
     end_line stmt = Inr ln \<and>
     (case py_getitem stmt (u ''expression'') of
        Inr expr \<Rightarrow>
          py_getitem expr (u ''type'') = Inr (PStr (u ''AssignmentExpression'')) \<and>
          (case py_getitem expr (u ''operator'') of
             Inr op \<Rightarrow> op \<in> set ASSIGN_OPERATORS
           | Inl e \<Rightarrow> False) \<and>
          (case py_getitem expr (u ''left'') of
             Inr left \<Rightarrow>
               py_getitem left (u ''type'') = Inr (PStr (u ''Identifier'')) \<and>
               py_getitem left (u ''name'') = Inr x
           | Inl e \<Rightarrow> False) \<and>
          (case py_getitem expr (u ''right'') of
             Inr right \<Rightarrow> inert right
           | Inl e \<Rightarrow> False)
      | Inl e \<Rightarrow> False)"

definition same_frame :: "ast_state \<Rightarrow> ast_state \<Rightarrow> bool" where
  "same_frame st st' \<longleftrightarrow>
     heap st' = heap st \<and> names st' = names st \<and> assignments st' = assignments st \<and>
     breakpoints st' = breakpoints st"

text \<open>
  \<open>fnames t\<close>: the names of the function declarations anywhere in the tree \<open>t\<close>, the
  only values \<^verbatim>\<open>onFunctionDeclaration\<close> can pass on as a scope. A binding with a value
  is the dict of a binding after \<^verbatim>\<open>name['value'] = ...\<close>. \<open>initialised_declarator decl n raw ln\<close>:
  \<open>decl\<close> is a declarator of the name \<open>n\<close> whose initializer has the raw text \<open>raw\<close>
  and whose last line is \<open>ln\<close>.
\<close>

fun fnames :: "pyval \<Rightarrow> pyval set" where
  "fnames (PList xs) = (\<Union>x\<in>set xs. fnames x)"
| "fnames (PDict kvs) =
     (if map_of kvs (u ''type'') = Some (PStr (u ''FunctionDeclaration''))
      then (case py_getitem (PDict kvs) (u ''id'') of
              Inr i \<Rightarrow> (case py_getitem i (u ''name'') of Inr f \<Rightarrow> {f} | Inl e \<Rightarrow> {})
            | Inl e \<Rightarrow> {})
      else {}) \<union>
     (\<Union>kv\<in>set kvs. fnames (snd kv))"
| "fnames v = {}"

definition valued_binding :: "pyval \<Rightarrow> pyval \<Rightarrow> pyval \<Rightarrow> binding" where
  "valued_binding n scope raw = \<lparr>b_name = n, b_scope = scope, b_value = Some raw\<rparr>"

definition initialised_declarator :: "pyval \<Rightarrow> pyval \<Rightarrow> pyval \<Rightarrow> pyval \<Rightarrow> bool" where
  "initialised_declarator decl n raw ln \<longleftrightarrow>
     py_getitem decl (u ''type'') = Inr (PStr (u ''VariableDeclarator'')) \<and>
     (case py_getitem decl (u ''id'') of
        Inr target \<Rightarrow> py_getitem target (u ''name'') = Inr n
      | Inl e \<Rightarrow> False) \<and>
     (case py_getitem decl (u ''init'') of
        Inr init \<Rightarrow> py_getitem init (u ''raw'') = Inr raw
      | Inl e \<Rightarrow> False) \<and>
     end_line decl = Inr ln"

section \<open>Trees of sample scripts\<close>

text \<open>
  The trees below are what the parser returns for small scripts, reduced to the
  fields this module reads: every node has its \<^verbatim>\<open>type\<close>, its children and its
  \<^verbatim>\<open>loc\<close> with the first and the last line. \<open>parsed_as t\<close> is a parser that
  returns the tree \<open>t\<close>.
\<close>

definition loc :: "int \<Rightarrow> int \<Rightarrow> pyval" where
  "loc l1 l2 =
     PDict [(u ''start'', PDict [(u ''line'', PInt l1)]),
            (u ''end'', PDict [(u ''line'', PInt l2)])]"

definition node :: "string \<Rightarrow> (string \<times> pyval) list \<Rightarrow> int \<Rightarrow> int \<Rightarrow> pyval" where
  "node ty fs l1 l2 =
     PDict ((u ''type'', PStr (u ty)) # map (\<lambda>kv. (u (fst kv), snd kv)) fs @
            [(u ''loc'', loc l1 l2)])"

definition parsed_as :: "pyval \<Rightarrow> ustr \<Rightarrow> error + pyval" where
  "parsed_as t script = Inr t"

definition ident :: "string \<Rightarrow> int \<Rightarrow> pyval" where
  "ident n l = node ''Identifier'' [(''name'', PStr (u n))] l l"

definition num_literal :: "int \<Rightarrow> string \<Rightarrow> int \<Rightarrow> pyval" where
  "num_literal n raw l = node ''Literal'' [(''value'', PInt n), (''raw'', PStr (u raw))] l l"

definition declarator_node :: "pyval \<Rightarrow> pyval option \<Rightarrow> int \<Rightarrow> pyval" where
  "declarator_node target init l =
     node ''VariableDeclarator''
       ((''id'', target) # (case init of None \<Rightarrow> [] | Some i \<Rightarrow> [(''init'', i)])) l l"

definition var_decl :: "pyval \<Rightarrow> pyval option \<Rightarrow> int \<Rightarrow> pyval" where
  "var_decl target init l =
     node ''VariableDeclaration''
       [(''declarations'', PList [declarator_node target init l]),
        (''kind'', PStr (u ''var''))] l l"

definition assign_stmt :: "string \<Rightarrow> pyval \<Rightarrow> pyval \<Rightarrow> int \<Rightarrow> pyval" where
  "assign_stmt op left right l =
     node ''ExpressionStatement''
       [(''expression'',
           node ''AssignmentExpression''
             [(''operator'', PStr (u op)), (''left'', left), (''right'', right)] l l)] l l"

definition program :: "pyval list \<Rightarrow> int \<Rightarrow> pyval" where
  "program stmts l = node ''Program'' [(''body'', PList stmts), (''sourceType'', PStr (u ''script''))] 1 l"

text \<open>\<^verbatim>\<open>var x = 5;\<close> and, on the next line, \<^verbatim>\<open>x = 6;\<close>\<close>

definition prog_declare_then_assign :: pyval where
  "prog_declare_then_assign =
     program [var_decl (ident ''x'' 1) (Some (num_literal 5 ''5'' 1)) 1,
              assign_stmt ''='' (ident ''x'' 2) (num_literal 6 ''6'' 2) 2] 2"

text \<open>\<^verbatim>\<open>var [a, b] = c;\<close>\<close>

definition prog_destructuring :: pyval where
  "prog_destructuring =
     program [var_decl (node ''ArrayPattern'' [(''elements'', PList [ident ''a'' 1, ident ''b'' 1])] 1 1)
                (Some (ident ''c'' 1)) 1] 1"

text \<open>\<^verbatim>\<open>if (a) while (b) {}\<close>\<close>

definition prog_if_while :: pyval where
  "prog_if_while =
     program [node ''IfStatement''
                [(''test'', ident ''a'' 1),
                 (''consequent'',
                    node ''WhileStatement''
                      [(''test'', ident ''b'' 1),
                       (''body'', node ''BlockStatement'' [(''body'', PList [])] 1 1)] 1 1)] 1 1] 1"

text \<open>
  A string of 32 characters that latin1 encodes, one of 32 characters that it does not
  (the euro sign), the literal node of a string, and \<^verbatim>\<open>var a = "AAAA...";\<close>,
  \<^verbatim>\<open>f(args);\<close> and \<^verbatim>\<open>return arg;\<close>.
\<close>

definition sc_ascii :: ustr where
  "sc_ascii = u ''AAAAAAAAAAAAAAAAAAAAAAAAAAAAAAAA''"

definition sc_euro :: ustr where
  "sc_euro = replicate 32 8364"

definition str_literal :: "ustr \<Rightarrow> int \<Rightarrow> pyval" where
  "str_literal s l = node ''Literal'' [(''value'', PStr s), (''raw'', PStr (34 # s @ [34]))] l l"

definition prog_var_long_string :: pyval where
  "prog_var_long_string = program [var_decl (ident ''a'' 1) (Some (str_literal sc_ascii 1)) 1] 1"

definition call_stmt :: "string \<Rightarrow> pyval list \<Rightarrow> int \<Rightarrow> pyval" where
  "call_stmt f args l =
     node ''ExpressionStatement''
       [(''expression'',
           node ''CallExpression'' [(''callee'', ident f l), (''arguments'', PList args)] l l)] l l"

definition return_stmt :: "pyval \<Rightarrow> int \<Rightarrow> pyval" where
  "return_stmt arg l = node ''ReturnStatement'' [(''argument'', arg)] l l"

definition args_short_and_long :: "pyval list" where
  "args_short_and_long = [str_literal (u ''foobar'') 1, str_literal sc_ascii 1]"

text \<open>
  The loop of the repository's test \<^verbatim>\<open>testWhileStatement\<close>, lines 5 to 8; the four
  assignments of \<^verbatim>\<open>testAssign\<close>; \<^verbatim>\<open>x == 1;\<close>; and the member expression
  \<^verbatim>\<open>a.b\<close>.
\<close>

definition while_5_to_8 :: pyval where
  "while_5_to_8 =
     node ''WhileStatement''
       [(''test'', node ''BinaryExpression''
                     [(''operator'', PStr (u ''>'')), (''left'', ident ''i'' 5),
                      (''right'', num_literal 0 ''0'' 5)] 5 5),
        (''body'', node ''BlockStatement''
                     [(''body'', PList [assign_stmt ''+='' (ident ''s'' 6) (str_literal (u ''a'') 6) 6,
                                        assign_stmt ''-='' (ident ''i'' 7) (num_literal 1 ''1'' 7) 7])]
                     5 8)] 5 8"

definition four_assignments :: "pyval list" where
  "four_assignments =
     [assign_stmt ''+='' (ident ''number'' 3) (num_literal 1 ''1'' 3) 3,
      assign_stmt ''-='' (ident ''number'' 4) (num_literal 1 ''1'' 4) 4,
      assign_stmt ''*='' (ident ''number'' 5) (num_literal 2 ''2'' 5) 5,
      assign_stmt ''/='' (ident ''number'' 6) (num_literal 3 ''3'' 6) 6]"

text \<open>
  The script of \<^verbatim>\<open>testAssign\<close>: an empty statement on line 1, \<^verbatim>\<open>var number = 0;\<close> on
  line 2 and the four assignments on lines 3 to 6.
\<close>

definition prog_test_assign :: pyval where
  "prog_test_assign =
     program (node ''EmptyStatement'' [] 1 1 #
              var_decl (ident ''number'' 2) (Some (num_literal 0 ''0'' 2)) 2 #
              four_assignments) 7"



text \<open>
  A function declaration from line \<open>l1\<close> to line \<open>l2\<close>, and the function of the
  repository's test \<^verbatim>\<open>testFunctionDeclaration\<close>: lines 2 to 6 hold
  \<^verbatim>\<open>function foo(bar) { var a; a = "qwerty"; return a; }\<close>, one statement a line.
\<close>

definition func_decl :: "string \<Rightarrow> pyval list \<Rightarrow> int \<Rightarrow> int \<Rightarrow> pyval" where
  "func_decl f stmts l1 l2 =
     node ''FunctionDeclaration''
       [(''id'', ident f l1), (''params'', PList []),
        (''body'', node ''BlockStatement'' [(''body'', PList stmts)] l1 l2)] l1 l2"

definition foo_decl :: pyval where
  "foo_decl =
     func_decl ''foo''
       [var_decl (ident ''a'' 3) None 3,
        assign_stmt ''='' (ident ''a'' 4) (str_literal (u ''qwerty'') 4) 4,
        return_stmt (ident ''a'' 5) 5] 2 6"

text \<open>\<^verbatim>\<open>var x = 5;\<close> followed by the function \<^verbatim>\<open>foo\<close>, and the state the constructor returns for it.\<close>

definition prog_var_and_function :: pyval where
  "prog_var_and_function = program [var_decl (ident ''x'' 1) (Some (num_literal 5 ''5'' 1)) 1, foo_decl] 6"

definition state_var_and_function :: ast_state where
  "state_var_and_function =
     \<lparr>heap = [valued_binding (PStr (u ''x'')) PNone (PStr (u ''5'')),
              plain_binding (PStr (u ''a'')) (PStr (u ''foo'')),
              plain_binding (PStr (u ''a'')) (PStr (u ''foo''))],
      names = [0, 1], assignments = [0],
      breakpoints = [assign_point (PInt 1) PNone, assign_point (PInt 4) (PStr (u ''foo''))],
      shellcodes = {}, thug_logging = None\<rparr>"


text \<open>\<^verbatim>\<open>var x;\<close> and, on the next line, \<^verbatim>\<open>var x = 5;\<close>\<close>

definition prog_redeclare :: pyval where
  "prog_redeclare =
     program [var_decl (ident ''x'' 1) None 1,
              var_decl (ident ''x'' 2) (Some (num_literal 5 ''5'' 2)) 2] 2"

text \<open>The declarator of \<^verbatim>\<open>var x = 5;\<close>, and the state after \<^verbatim>\<open>var x;\<close>.\<close>

definition declarator_x_5 :: pyval where
  "declarator_x_5 = declarator_node (ident ''x'' 1) (Some (num_literal 5 ''5'' 1)) 1"

definition state_declared_x :: ast_state where
  "state_declared_x =
     \<lparr>heap = [plain_binding (PStr (u ''x'')) PNone], names = [0], assignments = [],
      breakpoints = [], shellcodes = {}, thug_logging = None\<rparr>"

section \<open>Evaluation\<close>

lemma u_eq_iff [simp]: "u s = u t \<longleftrightarrow> s = t"
  by (simp add: u_def inj_map_eq_map inj_on_def)

lemma length_u [simp]: "length (u s) = length s"
  by (simp add: u_def)

lemma u_eq_Nil [simp]: "u s = [] \<longleftrightarrow> s = []"
  by (simp add: u_def)

lemmas walk_simps = walk.simps walk_item.simps onExpressionStatement.simps
  handleAssignmentExpression.simps onFunctionDeclaration.simps onIfStatement.simps

lemmas handler_defs = onVariableDeclaration_def declarator_def record_name_def record_value_def
  set_breakpoint_def onLiteral_def
  onReturnStatement_def handleCallExpression_def call_argument_def onForStatement_def
  onWhileStatement_def onDoWhileStatement_def onForInStatement_def on_handler_def
  handle_handler_def ASSIGN_OPERATORS_def ASSIGN_BREAKPOINT_def LOOP_BREAKPOINT_def deref_def

lemmas tree_defs = loc_def node_def ident_def num_literal_def var_decl_def declarator_node_def assign_stmt_def
  program_def parsed_as_def str_literal_def call_stmt_def return_stmt_def

lemmas init_defs = AST_init_def init_ast_def walk_top_def empty_state_def names_out_def
  assignments_out_def

section \<open>Parse failure\<close>

text \<open>
  C8. When turning the source text into a tree raises, whatever the exception, the
  constructor returns normally, and the object it leaves has no binding, no value
  assignment, no breakpoint and no shellcode; the collaborator is untouched.
\<close>

theorem parse_failure_gives_empty_result:
  assumes "parse script = Inl e"
  shows "\<exists>st. AST_init parse script reg = Inr st \<and> names_out st = [] \<and>
           assignments_out st = [] \<and> breakpoints st = [] \<and> shellcodes st = {} \<and>
           thug_logging st = reg"
  using assms
  by (simp add: AST_init_def init_ast_def empty_state_def names_out_def assignments_out_def
      deref_def)

theorem parse_failure_gives_empty_result_witness:
  "\<exists>st. AST_init (\<lambda>s. Inl ParserError) (u ''var = ;'') None = Inr st \<and> names_out st = [] \<and>
     assignments_out st = [] \<and> breakpoints st = [] \<and> shellcodes st = {} \<and>
     thug_logging st = None"
  using parse_failure_gives_empty_result [of "\<lambda>s. Inl ParserError" "u ''var = ;''" ParserError None]
  by simp

section \<open>Uniqueness of bindings\<close>

text \<open>
  C3. The claim: the bindings hold at most one entry per (name, scope). The code
  compares the fresh dict \<^verbatim>\<open>{'name', 'scope'}\<close> with dicts of \<^verbatim>\<open>self.names\<close> that
  \<^verbatim>\<open>onVariableDeclaration\<close> has meanwhile given a \<^verbatim>\<open>'value'\<close> key, so the comparison
  fails and the pair is appended again: for \<^verbatim>\<open>var x = 5; x = 6;\<close> the bindings hold
  two entries for x at the top level.
\<close>

theorem duplicate_binding_after_initialised_declaration:
  "map_sum id names_out (AST_init (parsed_as prog_declare_then_assign) (u ''var x = 5; x = 6;'') None) =
     Inr [\<lparr>b_name = PStr (u ''x''), b_scope = PNone, b_value = Some (PStr (u ''5''))\<rparr>,
          \<lparr>b_name = PStr (u ''x''), b_scope = PNone, b_value = None\<rparr>]"
  by (simp add: init_defs prog_declare_then_assign_def tree_defs walk_simps handler_defs)

section \<open>Nodes of an unexpected shape\<close>

text \<open>
  C6. The claim: a node without an expected field is skipped and no handler raises.
  \<^verbatim>\<open>onVariableDeclaration\<close> reads \<^verbatim>\<open>decl['id']['name']\<close> without the tests that
  \<^verbatim>\<open>onFunctionDeclaration\<close> makes, so a declarator whose target is a pattern raises
  KeyError; \<^verbatim>\<open>onIfStatement\<close> walks whatever \<^verbatim>\<open>body\<close> the branch has, and for a
  loop as the branch that is a dict, whose keys the walk then indexes: TypeError.
  Both leave the constructor.
\<close>

theorem shape_mismatch_raises:
  "AST_init (parsed_as prog_destructuring) (u ''var [a, b] = c;'') None = Inl KeyError \<and>
   AST_init (parsed_as prog_if_while) (u ''if (a) while (b) {}'') None = Inl TypeError"
  by (simp add: init_defs prog_destructuring_def prog_if_while_def tree_defs walk_simps handler_defs)

section \<open>Results of the handlers\<close>

text \<open>
  \<open>returns m P\<close>: when \<open>m\<close> is a normal return, its value satisfies \<open>P\<close>. The rules
  below push the predicate through the sequencing of the handlers.
\<close>

lemma add_shellcode_not_candidate: "\<not> is_candidate v \<Longrightarrow> add_shellcode v st = st"
  by (cases v) auto

lemma add_shellcode_falsy: "\<not> truthy v \<Longrightarrow> add_shellcode v st = st"
  by (cases v) auto

lemma forward_shellcode_Some:
  "forward_shellcode s reg = Some r \<longleftrightarrow>
     (\<exists>S b. reg = Some (Registry S) \<and> encode_latin1 s = Some b \<and> r = Registry (insert b S))"
proof (cases reg)
  case None
  then show ?thesis by (simp add: forward_shellcode_def)
next
  case (Some r0)
  then show ?thesis
    by (cases r0; cases "encode_latin1 s") (auto simp: forward_shellcode_def)
qed

lemma forward_shellcode_None:
  "forward_shellcode s reg = None \<longleftrightarrow>
     (reg = None \<or> reg = Some FailingRegistry \<or> encode_latin1 s = None)"
proof (cases reg)
  case None
  then show ?thesis by (simp add: forward_shellcode_def)
next
  case (Some r0)
  then show ?thesis
    by (cases r0; cases "encode_latin1 s") (auto simp: forward_shellcode_def)
qed

lemma add_shellcode_records: "is_candidate v \<Longrightarrow> recorded v (add_shellcode v st)"
  by (cases v) (auto simp: recorded_def forward_shellcode_Some split: option.splits)

lemma add_shellcode_keeps: "recorded v st \<Longrightarrow> recorded v (add_shellcode w st)"
  by (cases w)
     (auto simp: recorded_def forward_shellcode_Some split: option.splits registry.splits pyval.splits)

lemma py_getitem_contains: "py_getitem d k = Inr v \<Longrightarrow> py_contains k d = Inr True"
  by (cases d) (auto split: option.splits)

lemma py_getitem_truthy: "py_getitem d k = Inr v \<Longrightarrow> truthy d"
  by (cases d) (auto split: option.splits)

lemma call_argument_dict:
  "call_argument scope (PDict kvs) st =
     Inr (case map_of kvs (u ''type'') of
            None \<Rightarrow> st
          | Some ty \<Rightarrow>
              if ty = PStr (u ''Literal'')
              then add_shellcode (case map_of kvs (u ''value'') of None \<Rightarrow> PNone | Some v \<Rightarrow> v) st
              else st)"
  by (auto simp: call_argument_def onLiteral_def add_shellcode_falsy split: option.splits)

lemma call_argument_steps:
  assumes "p = PDict kvs"
  shows "\<exists>st'. call_argument scope p st = Inr st' \<and> (\<forall>w. recorded w st \<longrightarrow> recorded w st') \<and>
           (\<forall>v. literal_value p v \<and> is_candidate v \<longrightarrow> recorded v st') \<and>
           ((\<forall>v. literal_value p v \<longrightarrow> \<not> is_candidate v) \<longrightarrow> st' = st)"
  using assms
  by (auto simp: call_argument_dict literal_value_def add_shellcode_keeps add_shellcode_records
      add_shellcode_not_candidate split: option.splits)

lemma call_arguments_loop:
  assumes "\<forall>p\<in>set ps. \<exists>kvs. p = PDict kvs"
  shows "\<exists>st'. for_loop (call_argument scope) ps st = Inr st' \<and>
           (\<forall>w. recorded w st \<longrightarrow> recorded w st') \<and>
           (\<forall>p\<in>set ps. \<forall>v. literal_value p v \<and> is_candidate v \<longrightarrow> recorded v st') \<and>
           ((\<forall>p\<in>set ps. \<forall>v. literal_value p v \<longrightarrow> \<not> is_candidate v) \<longrightarrow> st' = st)"
  using assms
proof (induction ps arbitrary: st)
  case Nil
  then show ?case by simp
next
  case (Cons p ps)
  then obtain kvs where p: "p = PDict kvs" by auto
  from call_argument_steps [OF p, of scope st] obtain st1 where
    s1: "call_argument scope p st = Inr st1" "\<forall>w. recorded w st \<longrightarrow> recorded w st1"
        "\<forall>v. literal_value p v \<and> is_candidate v \<longrightarrow> recorded v st1"
        "(\<forall>v. literal_value p v \<longrightarrow> \<not> is_candidate v) \<longrightarrow> st1 = st"
    by blast
  from Cons.IH [of st1] Cons.prems obtain st2 where
    s2: "for_loop (call_argument scope) ps st1 = Inr st2" "\<forall>w. recorded w st1 \<longrightarrow> recorded w st2"
        "\<forall>p\<in>set ps. \<forall>v. literal_value p v \<and> is_candidate v \<longrightarrow> recorded v st2"
        "(\<forall>p\<in>set ps. \<forall>v. literal_value p v \<longrightarrow> \<not> is_candidate v) \<longrightarrow> st2 = st1"
    by auto
  have "for_loop (call_argument scope) (p # ps) st = Inr st2"
    using s1(1) s2(1) by simp
  moreover have "\<forall>w. recorded w st \<longrightarrow> recorded w st2"
    using s1(2) s2(2) by blast
  moreover have "\<forall>q\<in>set (p # ps). \<forall>v. literal_value q v \<and> is_candidate v \<longrightarrow> recorded v st2"
    using s1(3) s2(2) s2(3) by auto
  moreover have "(\<forall>q\<in>set (p # ps). \<forall>v. literal_value q v \<longrightarrow> \<not> is_candidate v) \<longrightarrow> st2 = st"
    using s1(4) s2(4) by auto
  ultimately show ?case by blast
qed


lemma walk_item_return:
  assumes "is_return_of stmt v"
  shows "walk_item stmt scope st = Inr (add_shellcode v st)"
proof -
  from assms obtain arg where
    ty: "py_getitem stmt (u ''type'') = Inr (PStr (u ''ReturnStatement''))" and
    a: "py_getitem stmt (u ''argument'') = Inr arg" and
    v: "py_get arg (u ''value'') = Inr v"
    by (auto simp: is_return_of_def split: sum.splits)
  have "walk_item stmt scope st = onReturnStatement stmt scope st"
    using ty by (simp add: walk_item.simps on_handler_def)
  also have "\<dots> = Inr (add_shellcode v st)"
    using a v py_getitem_contains [OF a] py_getitem_truthy [OF a]
    by (simp add: onReturnStatement_def add_shellcode_falsy)
  finally show ?thesis .
qed

lemma walk_item_call:
  assumes "is_call_of stmt args"
  shows "walk_item stmt scope st = for_loop (call_argument scope) args st"
proof -
  from assms obtain expr where
    ty: "py_getitem stmt (u ''type'') = Inr (PStr (u ''ExpressionStatement''))" and
    e: "py_getitem stmt (u ''expression'') = Inr expr" and
    ety: "py_getitem expr (u ''type'') = Inr (PStr (u ''CallExpression''))" and
    a: "py_getitem expr (u ''arguments'') = Inr (PList args)"
    by (auto simp: is_call_of_def split: sum.splits)
  have "walk_item stmt scope st = onExpressionStatement stmt scope st"
    using ty by (simp add: walk_item.simps on_handler_def)
  also have "\<dots> = handleCallExpression stmt scope st"
    using e ety py_getitem_contains [OF e] py_getitem_contains [OF ety]
    by (simp add: onExpressionStatement.simps handle_handler_def)
  also have "\<dots> = for_loop (call_argument scope) args st"
    using e a py_getitem_contains [OF e] py_getitem_contains [OF a]
    by (simp add: handleCallExpression_def)
  finally show ?thesis .
qed

lemma set_breakpoint_shellcodes:
  "set_breakpoint stmt scope ty st = Inr st' \<Longrightarrow>
     shellcodes st' = shellcodes st \<and> thug_logging st' = thug_logging st"
  by (auto simp: set_breakpoint_def Let_def split: sum.splits if_splits)

lemma record_name_shellcodes [simp]:
  "shellcodes (record_name n scope st) = shellcodes st"
  "thug_logging (record_name n scope st) = thug_logging st"
  by (simp_all add: record_name_def Let_def)

lemma record_value_shellcodes [simp]:
  "shellcodes (record_value a raw st) = shellcodes st"
  "thug_logging (record_value a raw st) = thug_logging st"
  by (simp_all add: record_value_def Let_def)

definition returns :: "error + 'a \<Rightarrow> ('a \<Rightarrow> bool) \<Rightarrow> bool" where
  "returns m P \<longleftrightarrow> (\<forall>x. m = Inr x \<longrightarrow> P x)"

lemma returns_Inr: "returns (Inr x) P = P x"
  by (simp add: returns_def)

lemma returns_Inl: "returns (Inl e) P = True"
  by (simp add: returns_def)

lemma returns_bind:
  "returns (case m of Inl e \<Rightarrow> Inl e | Inr x \<Rightarrow> f x) P = returns m (\<lambda>x. returns (f x) P)"
  by (cases m) (simp_all add: returns_def)

lemma returns_if:
  "returns (if c then a else b) P = ((c \<longrightarrow> returns a P) \<and> (\<not> c \<longrightarrow> returns b P))"
  by simp

lemmas returns_simps = returns_Inr returns_Inl returns_bind returns_if

lemma returnsD: "returns m P \<Longrightarrow> m = Inr x \<Longrightarrow> P x"
  by (simp add: returns_def)

lemma declarator_shellcodes:
  assumes "declarator scope decl st = Inr st'"
  shows "shellcodes st' = shellcodes st \<and> thug_logging st' = thug_logging st"
proof -
  have "returns (declarator scope decl st)
          (\<lambda>st'. shellcodes st' = shellcodes st \<and> thug_logging st' = thug_logging st)"
    apply (simp add: declarator_def Let_def returns_simps)
    apply (simp add: returns_def)
    apply (intro allI impI conjI)
    apply (drule set_breakpoint_shellcodes, simp)+
    done
  then show ?thesis using assms by (rule returnsD)
qed

lemma for_loop_returns:
  assumes "\<And>x s. x \<in> set xs \<Longrightarrow> I s \<Longrightarrow> returns (f x s) I" and "I st"
  shows "returns (for_loop f xs st) I"
  using assms
proof (induction xs arbitrary: st)
  case Nil
  then show ?case by (simp add: returns_Inr)
next
  case (Cons x xs)
  have step: "returns (f x st) I"
    using Cons.prems by simp
  have rest: "returns (for_loop f xs s1) I" if "f x st = Inr s1" for s1
  proof (rule Cons.IH)
    show "I s1" using step that by (rule returnsD)
    show "\<And>y s. y \<in> set xs \<Longrightarrow> I s \<Longrightarrow> returns (f y s) I"
      using Cons.prems(1) by simp
  qed
  show ?case
    using rest by (cases "f x st") (simp_all add: returns_Inl)
qed

lemma onVariableDeclaration_shellcodes:
  assumes "onVariableDeclaration item scope st = Inr st'"
  shows "shellcodes st' = shellcodes st \<and> thug_logging st' = thug_logging st"
proof -
  let ?I = "\<lambda>s. shellcodes s = shellcodes st \<and> thug_logging s = thug_logging st"
  have loop: "returns (for_loop (declarator scope) ds st) ?I" for ds
  proof (rule for_loop_returns)
    show "?I st" by simp
    show "returns (declarator scope d s) ?I" if "?I s" for d s
      using that declarator_shellcodes [of scope d s] by (simp add: returns_def)
  qed
  have "returns (onVariableDeclaration item scope st) ?I"
    by (simp add: onVariableDeclaration_def returns_simps) (simp add: returns_def [of "py_contains _ _"] returns_def [of "py_getitem _ _"] returns_def [of "py_iter _"] loop)
  then show ?thesis using assms by (rule returnsD)
qed

lemma encode_latin1_u: "encode_latin1 (u s) = Some (map of_nat (u s))"
  by (simp add: encode_latin1_def u_def list_all_iff)

lemma same_frame_refl [simp]: "same_frame st st"
  by (simp add: same_frame_def)

lemma same_frame_trans: "same_frame a b \<Longrightarrow> same_frame b c \<Longrightarrow> same_frame a c"
  by (simp add: same_frame_def)

lemma add_shellcode_frame [simp]: "same_frame st (add_shellcode v st)"
  by (cases v) (simp_all add: same_frame_def split: option.split)

lemma of_nat_byte_inj:
  assumes "x < 256" and "y < 256" and "(of_nat x :: 8 word) = of_nat y"
  shows "x = y"
proof -
  have "take_bit 8 x = take_bit 8 y"
    using assms(3) by (simp add: word_of_nat_eq_iff)
  moreover have "take_bit 8 x = x" "take_bit 8 y = y"
    using assms(1,2) by (simp_all add: take_bit_nat_eq_self_iff)
  ultimately show ?thesis by simp
qed

lemma encode_latin1_inj:
  assumes "encode_latin1 s = Some b" and "encode_latin1 t = Some b"
  shows "s = t"
proof -
  have s: "\<forall>c\<in>set s. c < 256" and t: "\<forall>c\<in>set t. c < 256"
    and e: "map (of_nat :: nat \<Rightarrow> 8 word) s = map of_nat t"
    using assms by (auto simp: encode_latin1_def list_all_iff split: if_splits)
  have "inj_on (of_nat :: nat \<Rightarrow> 8 word) (set s \<union> set t)"
  proof (rule inj_onI)
    fix x y assume "x \<in> set s \<union> set t" "y \<in> set s \<union> set t"
      and "(of_nat x :: 8 word) = of_nat y"
    moreover from calculation s t have "x < 256" "y < 256" by auto
    ultimately show "x = y" by (auto dest: of_nat_byte_inj)
  qed
  then show ?thesis
    using e by (simp add: inj_on_map_eq_map)
qed

lemma recorded_PStr:
  "recorded (PStr s) st \<longleftrightarrow>
     PStr s \<in> shellcodes st \<or>
     (\<exists>S b. thug_logging st = Some (Registry S) \<and> encode_latin1 s = Some b \<and> b \<in> S)"
  by (auto simp: recorded_def split: option.splits registry.splits)

lemma recorded_other:
  "\<forall>s. w \<noteq> PStr s \<Longrightarrow> recorded w st \<longleftrightarrow> w \<in> shellcodes st"
  by (cases w) (auto simp: recorded_def)

lemma add_shellcode_recorded_iff:
  "recorded w (add_shellcode v st) \<longleftrightarrow> recorded w st \<or> (is_candidate v \<and> w = v)"
proof (cases "is_candidate v")
  case False
  then show ?thesis by (simp add: add_shellcode_not_candidate)
next
  case True
  then obtain s where v: "v = PStr s" and len: "32 \<le> length s"
    by (cases v) auto
  show ?thesis
  proof (cases "forward_shellcode s (thug_logging st)")
    case None
    then have a: "add_shellcode (PStr s) st = st\<lparr>shellcodes := insert (PStr s) (shellcodes st)\<rparr>"
      using len by simp
    show ?thesis
    proof (cases "\<exists>s'. w = PStr s'")
      case True
      then obtain s' where w: "w = PStr s'" by blast
      show ?thesis
        unfolding w v a recorded_PStr using len by auto
    next
      case False
      then have n: "\<forall>s. w \<noteq> PStr s" by simp
      show ?thesis
        unfolding v a recorded_other [OF n] using n by auto
    qed
  next
    case (Some r)
    then obtain S b where r: "thug_logging st = Some (Registry S)" "encode_latin1 s = Some b"
      "r = Registry (insert b S)"
      by (auto simp: forward_shellcode_Some)
    have a: "add_shellcode (PStr s) st = st\<lparr>thug_logging := Some (Registry (insert b S))\<rparr>"
      using len Some r by simp
    show ?thesis
    proof (cases "\<exists>s'. w = PStr s'")
      case True
      then obtain s' where w: "w = PStr s'" by blast
      have "encode_latin1 s' = Some b \<longleftrightarrow> s' = s"
        using encode_latin1_inj [of s' b s] r(2) by auto
      then show ?thesis
        unfolding w v a recorded_PStr using len r by auto
    next
      case False
      then have n: "\<forall>s. w \<noteq> PStr s" by simp
      show ?thesis
        unfolding v a recorded_other [OF n] using n by auto
    qed
  qed
qed


lemma call_argument_recorded:
  assumes "p = PDict kvs"
  shows "\<exists>st'. call_argument scope p st = Inr st' \<and> same_frame st st' \<and>
           (\<forall>w. recorded w st' \<longleftrightarrow> recorded w st \<or> (is_candidate w \<and> literal_value p w))"
proof (cases "map_of kvs (u ''type'') = Some (PStr (u ''Literal''))")
  case True
  define v where "v = (case map_of kvs (u ''value'') of None \<Rightarrow> PNone | Some v \<Rightarrow> v)"
  have c: "call_argument scope p st = Inr (add_shellcode v st)"
    using assms True by (simp add: call_argument_dict v_def)
  have l: "literal_value p w \<longleftrightarrow> w = v" for w
    using assms True by (auto simp: literal_value_def v_def split: option.splits)
  show ?thesis
    using c l by (auto simp: add_shellcode_recorded_iff)
next
  case False
  then have c: "call_argument scope p st = Inr st"
    using assms by (simp add: call_argument_dict split: option.split)
  have l: "\<not> literal_value p w" for w
    using assms False by (auto simp: literal_value_def split: option.splits)
  show ?thesis
    using c l by simp
qed

lemma call_arguments_recorded:
  assumes "\<forall>p\<in>set ps. \<exists>kvs. p = PDict kvs"
  shows "\<exists>st'. for_loop (call_argument scope) ps st = Inr st' \<and> same_frame st st' \<and>
           (\<forall>w. recorded w st' \<longleftrightarrow>
                  recorded w st \<or> (is_candidate w \<and> (\<exists>p\<in>set ps. literal_value p w)))"
  using assms
proof (induction ps arbitrary: st)
  case Nil
  then show ?case by simp
next
  case (Cons p ps)
  then obtain kvs where p: "p = PDict kvs" by auto
  from call_argument_recorded [OF p, of scope st] obtain st1 where
    s1: "call_argument scope p st = Inr st1" "same_frame st st1"
        "\<forall>w. recorded w st1 \<longleftrightarrow> recorded w st \<or> (is_candidate w \<and> literal_value p w)"
    by blast
  from Cons.IH [of st1] Cons.prems obtain st2 where
    s2: "for_loop (call_argument scope) ps st1 = Inr st2" "same_frame st1 st2"
        "\<forall>w. recorded w st2 \<longleftrightarrow>
               recorded w st1 \<or> (is_candidate w \<and> (\<exists>p\<in>set ps. literal_value p w))"
    by auto
  have "for_loop (call_argument scope) (p # ps) st = Inr st2"
    using s1(1) s2(1) by simp
  moreover have "same_frame st st2"
    using s1(2) s2(2) by (rule same_frame_trans)
  moreover have "\<forall>w. recorded w st2 \<longleftrightarrow>
               recorded w st \<or> (is_candidate w \<and> (\<exists>q\<in>set (p # ps). literal_value q w))"
    using s1(3) s2(3) by auto
  ultimately show ?case by blast
qed

lemma call_argument_value:
  "call_argument scope (PDict kvs) st = Inr (add_shellcode (argument_value (PDict kvs)) st)"
  by (simp add: call_argument_dict argument_value_def split: option.split)

lemma call_arguments_fold:
  assumes "\<forall>p\<in>set ps. \<exists>kvs. p = PDict kvs"
  shows "for_loop (call_argument scope) ps st = Inr (fold add_shellcode (map argument_value ps) st)"
  using assms
proof (induction ps arbitrary: st)
  case Nil
  then show ?case by simp
next
  case (Cons p ps)
  then obtain kvs where p: "p = PDict kvs" by auto
  show ?case
    using Cons.IH [of "add_shellcode (argument_value p) st"] Cons.prems
    by (simp add: p call_argument_value)
qed

lemma walk_item_call_fold:
  assumes c: "is_call_of stmt args"
  shows "walk_item stmt scope st = Inr (fold add_shellcode (map argument_value args) st)"
proof -
  from c have d: "\<forall>p\<in>set args. \<exists>kvs. p = PDict kvs"
    by (auto simp: is_call_of_def list_all_iff elim: is_dict.elims)
  show ?thesis
    using walk_item_call [OF c, of scope st] call_arguments_fold [OF d, of scope st] by simp
qed

section \<open>Shellcode candidates\<close>

text \<open>
  C2. The claim: a qualifying value always enters the local set, whatever happens to the
  forwarding. In the code the local set is the \<^verbatim>\<open>except\<close> branch of the forwarding:
  with a collaborator that accepts the bytes of a 32 character ASCII string the local
  set stays empty.
\<close>

theorem forwarded_candidate_skips_local_set_counterexample:
  "32 \<le> length sc_ascii \<and>
   shellcodes (add_shellcode (PStr sc_ascii) (empty_state (Some (Registry {})))) = {}"
  by (simp add: sc_ascii_def empty_state_def forward_shellcode_def encode_latin1_u)

text \<open>
  C2, amended. A qualifying value is never dropped. It is added to the local set, in its
  original textual form, exactly when the forwarding raises: no collaborator, a
  collaborator whose \<^verbatim>\<open>add\<close> raises, or a code point above 255. Otherwise its
  latin1 bytes go to the collaborator and the local set is unchanged.
\<close>

theorem candidate_goes_to_registry_or_local_set:
  assumes "32 \<le> length s"
  shows "(thug_logging st = None \<or> thug_logging st = Some FailingRegistry \<or> (\<exists>c\<in>set s. 255 < c) \<longrightarrow>
           add_shellcode (PStr s) st = st\<lparr>shellcodes := insert (PStr s) (shellcodes st)\<rparr>) \<and>
         (\<forall>S. thug_logging st = Some (Registry S) \<and> (\<forall>c\<in>set s. c \<le> 255) \<longrightarrow>
           add_shellcode (PStr s) st =
             st\<lparr>thug_logging := Some (Registry (insert (map of_nat s) S))\<rparr>)"
proof (intro conjI allI impI)
  assume "thug_logging st = None \<or> thug_logging st = Some FailingRegistry \<or> (\<exists>c\<in>set s. 255 < c)"
  then have "forward_shellcode s (thug_logging st) = None"
    by (auto simp: forward_shellcode_None encode_latin1_def list_all_iff)
  then show "add_shellcode (PStr s) st = st\<lparr>shellcodes := insert (PStr s) (shellcodes st)\<rparr>"
    using assms by simp
next
  fix S
  assume "thug_logging st = Some (Registry S) \<and> (\<forall>c\<in>set s. c \<le> 255)"
  then have "forward_shellcode s (thug_logging st) = Some (Registry (insert (map of_nat s) S))"
    by (auto simp: forward_shellcode_Some encode_latin1_def list_all_iff)
  then show "add_shellcode (PStr s) st = st\<lparr>thug_logging := Some (Registry (insert (map of_nat s) S))\<rparr>"
    using assms by simp
qed

theorem candidate_goes_to_registry_or_local_set_witness:
  "32 \<le> length sc_ascii \<and> 32 \<le> length sc_euro \<and>
   add_shellcode (PStr sc_ascii) (empty_state None) =
     (empty_state None)\<lparr>shellcodes := {PStr sc_ascii}\<rparr> \<and>
   add_shellcode (PStr sc_euro) (empty_state (Some (Registry {}))) =
     (empty_state (Some (Registry {})))\<lparr>shellcodes := {PStr sc_euro}\<rparr> \<and>
   add_shellcode (PStr sc_ascii) (empty_state (Some (Registry {}))) =
     (empty_state (Some (Registry {})))\<lparr>thug_logging := Some (Registry {map of_nat sc_ascii})\<rparr>"
  using candidate_goes_to_registry_or_local_set [of sc_ascii "empty_state None"]
    candidate_goes_to_registry_or_local_set [of sc_euro "empty_state (Some (Registry {}))"]
    candidate_goes_to_registry_or_local_set [of sc_ascii "empty_state (Some (Registry {}))"]
  by (simp add: sc_ascii_def sc_euro_def empty_state_def u_def)

text \<open>
  C4. The claim counts a declarator's initializer among the places whose literals are
  inspected. \<^verbatim>\<open>onVariableDeclaration\<close> never looks at the value of the initializer:
  \<^verbatim>\<open>var a = "AAAA...";\<close> with 32 characters records nothing, with or without a
  collaborator.
\<close>

theorem declarator_initializer_not_inspected_counterexample:
  "is_candidate (PStr sc_ascii) \<and>
   map_sum id shellcodes (AST_init (parsed_as prog_var_long_string) (u ''var a = '' @ 34 # sc_ascii @ 34 # u '';'') None) = Inr {} \<and>
   map_sum id thug_logging
     (AST_init (parsed_as prog_var_long_string) (u ''var a = '' @ 34 # sc_ascii @ 34 # u '';'') (Some (Registry {}))) =
     Inr (Some (Registry {}))"
  by (simp add: init_defs prog_var_long_string_def str_literal_def sc_ascii_def tree_defs
      walk_simps handler_defs)


text \<open>
  C4, amended. A value is a candidate iff it is textual with at least 32 characters;
  \<^verbatim>\<open>add_shellcode\<close> records a candidate and leaves the state alone otherwise, so
  after it a value is recorded iff it was recorded before or it is the candidate handed
  over. The dispatcher hands it the value of a return statement's argument, and the
  value of each literal argument of a call that is an expression statement: every
  candidate among them is recorded, when none is a candidate the state is unchanged, and
  after the call a value is recorded iff it was recorded before or it is a candidate
  that is the value of one of the literal arguments; bindings, value assignments and
  breakpoints are as before. A variable declaration changes neither the local set nor
  the collaborator. The state after a call statement is exactly the state after
  \<^verbatim>\<open>add_shellcode\<close> has been given the value of each literal argument in turn.
\<close>

theorem shellcode_threshold:
  "(is_candidate v \<longleftrightarrow> (\<exists>s. v = PStr s \<and> 32 \<le> length s)) \<and>
   (is_candidate v \<longrightarrow> recorded v (add_shellcode v st)) \<and>
   (\<not> is_candidate v \<longrightarrow> add_shellcode v st = st) \<and>
   (is_return_of stmt v \<longrightarrow> walk_item stmt scope st = Inr (add_shellcode v st)) \<and>
   (recorded w (add_shellcode v st) \<longleftrightarrow> recorded w st \<or> (is_candidate v \<and> w = v)) \<and>
   (is_call_of stmt args \<longrightarrow>
      (\<exists>st'. walk_item stmt scope st = Inr st' \<and>
         (\<forall>p\<in>set args. \<forall>w. literal_value p w \<and> is_candidate w \<longrightarrow> recorded w st') \<and>
         ((\<forall>p\<in>set args. \<forall>w. literal_value p w \<longrightarrow> \<not> is_candidate w) \<longrightarrow> st' = st) \<and>
         (\<forall>w. recorded w st' \<longleftrightarrow>
                recorded w st \<or> (is_candidate w \<and> (\<exists>p\<in>set args. literal_value p w))) \<and>
         same_frame st st')) \<and>
   (onVariableDeclaration stmt scope st = Inr st1 \<longrightarrow>
      shellcodes st1 = shellcodes st \<and> thug_logging st1 = thug_logging st) \<and>
   (is_call_of stmt args \<longrightarrow>
      walk_item stmt scope st = Inr (fold add_shellcode (map argument_value args) st))"
proof (intro conjI impI)
  show "is_candidate v \<longleftrightarrow> (\<exists>s. v = PStr s \<and> 32 \<le> length s)"
    by (cases v) auto
  show "is_candidate v \<Longrightarrow> recorded v (add_shellcode v st)"
    by (rule add_shellcode_records)
  show "\<not> is_candidate v \<Longrightarrow> add_shellcode v st = st"
    by (rule add_shellcode_not_candidate)
  show "is_return_of stmt v \<Longrightarrow> walk_item stmt scope st = Inr (add_shellcode v st)"
    by (rule walk_item_return)
  show "is_call_of stmt args \<Longrightarrow>
      walk_item stmt scope st = Inr (fold add_shellcode (map argument_value args) st)"
    by (rule walk_item_call_fold)
  show "recorded w (add_shellcode v st) \<longleftrightarrow> recorded w st \<or> (is_candidate v \<and> w = v)"
    by (rule add_shellcode_recorded_iff)
  show "shellcodes st1 = shellcodes st" if "onVariableDeclaration stmt scope st = Inr st1"
    using onVariableDeclaration_shellcodes [OF that] by simp
  show "thug_logging st1 = thug_logging st" if "onVariableDeclaration stmt scope st = Inr st1"
    using onVariableDeclaration_shellcodes [OF that] by simp
  assume c: "is_call_of stmt args"
  then have d: "\<forall>p\<in>set args. \<exists>kvs. p = PDict kvs"
    by (auto simp: is_call_of_def list_all_iff elim: is_dict.elims)
  from call_arguments_loop [OF d, of scope st] obtain st' where
    s: "for_loop (call_argument scope) args st = Inr st'"
       "\<forall>p\<in>set args. \<forall>w. literal_value p w \<and> is_candidate w \<longrightarrow> recorded w st'"
       "(\<forall>p\<in>set args. \<forall>w. literal_value p w \<longrightarrow> \<not> is_candidate w) \<longrightarrow> st' = st"
    by blast
  from call_arguments_recorded [OF d, of scope st] s(1) have
    r: "same_frame st st'"
       "\<forall>w. recorded w st' \<longleftrightarrow>
              recorded w st \<or> (is_candidate w \<and> (\<exists>p\<in>set args. literal_value p w))"
    by simp_all
  have "walk_item stmt scope st = Inr st'"
    using walk_item_call [OF c, of scope st] s(1) by simp
  with s(2,3) r
  show "\<exists>st'. walk_item stmt scope st = Inr st' \<and>
         (\<forall>p\<in>set args. \<forall>w. literal_value p w \<and> is_candidate w \<longrightarrow> recorded w st') \<and>
         ((\<forall>p\<in>set args. \<forall>w. literal_value p w \<longrightarrow> \<not> is_candidate w) \<longrightarrow> st' = st) \<and>
         (\<forall>w. recorded w st' \<longleftrightarrow>
                recorded w st \<or> (is_candidate w \<and> (\<exists>p\<in>set args. literal_value p w))) \<and>
         same_frame st st'"
    by blast
qed


theorem shellcode_threshold_witness:
  "is_candidate (PStr sc_ascii) \<and> \<not> is_candidate (PStr (u ''foobar'')) \<and>
   recorded (PStr sc_ascii) (add_shellcode (PStr sc_ascii) (empty_state None)) \<and>
   add_shellcode (PStr (u ''foobar'')) (empty_state None) = empty_state None \<and>
   is_return_of (return_stmt (str_literal sc_ascii 1) 1) (PStr sc_ascii) \<and>
   walk_item (return_stmt (str_literal sc_ascii 1) 1) (PStr (u ''f'')) (empty_state None) =
     Inr (add_shellcode (PStr sc_ascii) (empty_state None)) \<and>
   is_call_of (call_stmt ''callme'' args_short_and_long 1) args_short_and_long \<and>
   (\<exists>st'. walk_item (call_stmt ''callme'' args_short_and_long 1) PNone (empty_state None) = Inr st' \<and>
      recorded (PStr sc_ascii) st' \<and> \<not> recorded (PStr (u ''foobar'')) st' \<and>
      same_frame (empty_state None) st') \<and>
   walk_item (call_stmt ''callme'' args_short_and_long 1) PNone (empty_state None) =
     Inr ((empty_state None)\<lparr>shellcodes := {PStr sc_ascii}\<rparr>) \<and>
   \<not> recorded (PStr (u ''foobar'')) (add_shellcode (PStr sc_ascii) (empty_state None)) \<and>
   onVariableDeclaration (var_decl (ident ''a'' 1) (Some (str_literal sc_ascii 1)) 1) PNone
       (empty_state None) =
     Inr \<lparr>heap = [\<lparr>b_name = PStr (u ''a''), b_scope = PNone,
                    b_value = Some (PStr (34 # sc_ascii @ [34]))\<rparr>],
          names = [0], assignments = [0],
          breakpoints = [\<lparr>bp_type = 0, bp_line = PInt 1, bp_scope = PNone\<rparr>],
          shellcodes = {}, thug_logging = None\<rparr>"
proof -
  have ret: "is_return_of (return_stmt (str_literal sc_ascii 1) 1) (PStr sc_ascii)"
    by (simp add: is_return_of_def return_stmt_def str_literal_def tree_defs)
  have call: "is_call_of (call_stmt ''callme'' args_short_and_long 1) args_short_and_long"
    by (simp add: is_call_of_def call_stmt_def args_short_and_long_def str_literal_def tree_defs)
  have lit: "literal_value (str_literal sc_ascii 1) (PStr sc_ascii)"
    by (simp add: literal_value_def str_literal_def tree_defs)
  have cand: "is_candidate (PStr sc_ascii)" "\<not> is_candidate (PStr (u ''foobar''))"
    by (simp_all add: sc_ascii_def)
  have decl: "onVariableDeclaration (var_decl (ident ''a'' 1) (Some (str_literal sc_ascii 1)) 1) PNone
       (empty_state None) =
     Inr \<lparr>heap = [\<lparr>b_name = PStr (u ''a''), b_scope = PNone,
                    b_value = Some (PStr (34 # sc_ascii @ [34]))\<rparr>],
          names = [0], assignments = [0],
          breakpoints = [\<lparr>bp_type = 0, bp_line = PInt 1, bp_scope = PNone\<rparr>],
          shellcodes = {}, thug_logging = None\<rparr>"
    by (simp add: str_literal_def tree_defs handler_defs empty_state_def)
  note T1 = shellcode_threshold [where v = "PStr sc_ascii" and st = "empty_state None"
        and stmt = "return_stmt (str_literal sc_ascii 1) 1" and scope = "PStr (u ''f'')"]
  note T2 = shellcode_threshold [where v = "PStr (u ''foobar'')" and st = "empty_state None"
        and stmt = "call_stmt ''callme'' args_short_and_long 1" and scope = PNone
        and args = args_short_and_long]
  have r1: "recorded (PStr sc_ascii) (add_shellcode (PStr sc_ascii) (empty_state None))"
    using T1 cand(1) by blast
  have r2: "add_shellcode (PStr (u ''foobar'')) (empty_state None) = empty_state None"
    using T2 cand(2) by blast
  have r3: "walk_item (return_stmt (str_literal sc_ascii 1) 1) (PStr (u ''f'')) (empty_state None) =
     Inr (add_shellcode (PStr sc_ascii) (empty_state None))"
    using T1 ret by blast
  have nr: "\<not> recorded (PStr (u ''foobar'')) (empty_state None)"
    by (simp add: recorded_def empty_state_def)
  note T3 = shellcode_threshold [where v = "PStr sc_ascii" and st = "empty_state None"
        and w = "PStr (u ''foobar'')", THEN conjunct2, THEN conjunct2, THEN conjunct2,
        THEN conjunct2, THEN conjunct1]
  have ne: "PStr (u ''foobar'') \<noteq> PStr sc_ascii"
    by (simp add: sc_ascii_def)
  have r5: "\<not> recorded (PStr (u ''foobar'')) (add_shellcode (PStr sc_ascii) (empty_state None))"
    using T3 nr ne by simp
  note T4 = shellcode_threshold [where st = "empty_state None"
        and stmt = "call_stmt ''callme'' args_short_and_long 1" and scope = PNone
        and args = args_short_and_long, THEN conjunct2, THEN conjunct2, THEN conjunct2,
        THEN conjunct2, THEN conjunct2, THEN conjunct1, THEN mp, OF call]
  from T4 obtain st' where
    w: "walk_item (call_stmt ''callme'' args_short_and_long 1) PNone (empty_state None) = Inr st'" and
    rec: "\<forall>p\<in>set args_short_and_long. \<forall>w. literal_value p w \<and> is_candidate w \<longrightarrow> recorded w st'" and
    only: "\<forall>w. recorded w st' \<longleftrightarrow>
              recorded w (empty_state None) \<or>
              (is_candidate w \<and> (\<exists>p\<in>set args_short_and_long. literal_value p w))" and
    fr: "same_frame (empty_state None) st'"
    by blast
  have nf: "\<not> recorded (PStr (u ''foobar'')) st'"
    using only nr cand(2) by blast
  have "str_literal sc_ascii 1 \<in> set args_short_and_long"
    by (simp add: args_short_and_long_def)
  with rec lit cand(1) have "recorded (PStr sc_ascii) st'"
    by blast
  with w nf fr have r4: "\<exists>st'. walk_item (call_stmt ''callme'' args_short_and_long 1) PNone (empty_state None) = Inr st' \<and>
      recorded (PStr sc_ascii) st' \<and> \<not> recorded (PStr (u ''foobar'')) st' \<and>
      same_frame (empty_state None) st'"
    by blast
  note T5 = shellcode_threshold [where st = "empty_state None"
        and stmt = "call_stmt ''callme'' args_short_and_long 1" and scope = PNone
        and args = args_short_and_long, THEN conjunct2, THEN conjunct2, THEN conjunct2,
        THEN conjunct2, THEN conjunct2, THEN conjunct2, THEN conjunct2, THEN mp, OF call]
  have av: "map argument_value args_short_and_long = [PStr (u ''foobar''), PStr sc_ascii]"
    by (simp add: args_short_and_long_def argument_value_def str_literal_def tree_defs)
  have r6: "walk_item (call_stmt ''callme'' args_short_and_long 1) PNone (empty_state None) =
     Inr ((empty_state None)\<lparr>shellcodes := {PStr sc_ascii}\<rparr>)"
    using T5 unfolding av by (simp add: sc_ascii_def empty_state_def forward_shellcode_def)
  show ?thesis
    using ret call cand decl r1 r2 r3 r4 r6 r5 by (intro conjI)
qed


section \<open>Breakpoints of loops\<close>

lemma set_breakpoint_end_line:
  "set_breakpoint stmt scope ty st =
     (case end_line stmt of Inl e \<Rightarrow> Inl e
      | Inr l \<Rightarrow> Inr (st\<lparr>breakpoints :=
                          add_breakpoint \<lparr>bp_type = ty, bp_line = l, bp_scope = scope\<rparr> (breakpoints st)\<rparr>))"
  by (simp add: set_breakpoint_def end_line_def add_breakpoint_def Let_def split: sum.split)

lemma count_list_distinct: "distinct xs \<Longrightarrow> x \<in> set xs \<Longrightarrow> count_list xs x = 1"
  by (induction xs) (auto simp: count_list_0_iff)

lemma add_breakpoint_count:
  "distinct bps \<Longrightarrow> count_list (add_breakpoint bp bps) bp = 1 \<and> distinct (add_breakpoint bp bps)"
  by (simp add: add_breakpoint_def count_list_distinct count_list_0_iff)

text \<open>
  C5. The claim puts the LoopPoint at the loop's header line. \<^verbatim>\<open>set_breakpoint\<close>
  reads the end of the statement's location: the loop of lines 5 to 8 gets its
  breakpoint at line 8, as the repository's tests expect.
\<close>

theorem loop_breakpoint_not_at_header_line_counterexample:
  "header_line while_5_to_8 = Inr (PInt 5) \<and>
   walk_item while_5_to_8 PNone (empty_state None) =
     Inr ((empty_state None)\<lparr>breakpoints :=
            [\<lparr>bp_type = LOOP_BREAKPOINT, bp_line = PInt 8, bp_scope = PNone\<rparr>]\<rparr>)"
  by (simp add: while_5_to_8_def tree_defs header_line_def empty_state_def walk_simps handler_defs)

text \<open>
  C5, amended. For a for, while, do-while or for-in statement the dispatcher returns the
  state with the LoopPoint breakpoint of the statement's end line added to the
  deduplicated breakpoints, and nothing else changed: the result depends on the kind
  and the location of the statement only, so nothing of the body is visited. The
  breakpoints then hold that LoopPoint exactly once.
\<close>

theorem loop_breakpoint_at_end_line:
  assumes "py_getitem item (u ''type'') = Inr (PStr k)"
    and "k \<in> {u ''ForStatement'', u ''WhileStatement'', u ''DoWhileStatement'', u ''ForInStatement''}"
    and "end_line item = Inr l"
    and "distinct (breakpoints st)"
  shows "\<exists>bps. walk_item item scope st = Inr (st\<lparr>breakpoints := bps\<rparr>) \<and>
           bps = add_breakpoint \<lparr>bp_type = LOOP_BREAKPOINT, bp_line = l, bp_scope = scope\<rparr> (breakpoints st) \<and>
           count_list bps \<lparr>bp_type = LOOP_BREAKPOINT, bp_line = l, bp_scope = scope\<rparr> = 1 \<and>
           distinct bps"
proof -
  have "walk_item item scope st = set_breakpoint item scope LOOP_BREAKPOINT st"
    using assms(1,2)
    by (auto simp: walk_item.simps on_handler_def onForStatement_def onWhileStatement_def
        onDoWhileStatement_def onForInStatement_def)
  then show ?thesis
    using assms(3,4) by (simp add: set_breakpoint_end_line add_breakpoint_count)
qed

theorem loop_breakpoint_at_end_line_witness:
  "\<exists>bps. walk_item while_5_to_8 PNone (empty_state None) = Inr ((empty_state None)\<lparr>breakpoints := bps\<rparr>) \<and>
     bps = [\<lparr>bp_type = LOOP_BREAKPOINT, bp_line = PInt 8, bp_scope = PNone\<rparr>] \<and>
     count_list bps \<lparr>bp_type = LOOP_BREAKPOINT, bp_line = PInt 8, bp_scope = PNone\<rparr> = 1 \<and>
     distinct bps"
  using loop_breakpoint_at_end_line [of while_5_to_8 "u ''WhileStatement''" "PInt 8" "empty_state None" PNone]
  by (simp add: while_5_to_8_def tree_defs end_line_def empty_state_def add_breakpoint_def)

section \<open>Assignment expressions\<close>

lemma onLiteral_frame: "returns (onLiteral litr scope st) (same_frame st)"
  by (simp add: onLiteral_def returns_simps) (simp add: returns_def)

lemma returns_mono: "returns m P \<Longrightarrow> (\<And>x. P x \<Longrightarrow> Q x) \<Longrightarrow> returns m Q"
  by (simp add: returns_def)

lemma call_argument_frame: "returns (call_argument scope p st) (same_frame st)"
  apply (simp add: call_argument_def returns_simps)
  apply (simp add: returns_def [of "py_contains _ _"] returns_def [of "py_getitem _ _"] onLiteral_frame)
  done

lemma handleCallExpression_frame: "returns (handleCallExpression stmt scope st) (same_frame st)"
proof -
  have loop: "returns (for_loop (call_argument scope) ps st) (same_frame st)" for ps
  proof (rule for_loop_returns)
    show "same_frame st st" by simp
    show "returns (call_argument scope p s) (same_frame st)" if "same_frame st s" for p s
      by (rule returns_mono [OF call_argument_frame]) (rule same_frame_trans [OF that])
  qed
  show ?thesis
    apply (simp add: handleCallExpression_def returns_simps)
    apply (simp add: returns_def [of "py_contains _ _"] returns_def [of "py_getitem _ _"]
        returns_def [of "py_iter _"] loop)
    done
qed

lemma walk_item_inert:
  assumes "inert v"
  shows "\<exists>st'. walk_item v scope st = Inr st' \<and> same_frame st st'"
proof -
  from assms obtain ty where ty: "py_getitem v (u ''type'') = Inr ty"
    and h: "on_handler ty = None \<or> on_handler ty = Some OnLiteral"
    by (auto simp: inert_def split: sum.splits)
  from h show ?thesis
  proof
    assume "on_handler ty = None"
    then show ?thesis using ty by (simp add: walk_item.simps)
  next
    assume l: "on_handler ty = Some OnLiteral"
    obtain kvs where v: "v = PDict kvs"
      using ty by (cases v) auto
    have ne: "kvs \<noteq> []"
      using py_getitem_truthy [OF ty] v by simp
    have "onLiteral v scope st = Inr (add_shellcode (case map_of kvs (u ''value'') of None \<Rightarrow> PNone | Some x \<Rightarrow> x) st)"
      using v ne by (simp add: onLiteral_def add_shellcode_falsy split: option.split)
    then show ?thesis using ty l by (simp add: walk_item.simps)
  qed
qed

lemma deref_append_heap:
  "list_all (\<lambda>a. a < length (heap st)) as \<Longrightarrow>
     deref (st\<lparr>heap := heap st @ hs\<rparr>) as = deref st as"
  by (induction as) (simp_all add: deref_def nth_append)

lemma record_name_out:
  assumes "wf_state st"
  shows "names_out (record_name n scope st) =
           (if \<lparr>b_name = n, b_scope = scope, b_value = None\<rparr> \<in> set (names_out st)
            then names_out st
            else names_out st @ [\<lparr>b_name = n, b_scope = scope, b_value = None\<rparr>])"
    and "wf_state (record_name n scope st)"
    and "assignments_out (record_name n scope st) = assignments_out st"
    and "breakpoints (record_name n scope st) = breakpoints st"
proof -
  have n: "list_all (\<lambda>a. a < length (heap st)) (names st)"
    and a: "list_all (\<lambda>a. a < length (heap st)) (assignments st)"
    using assms by (simp_all add: wf_state_def)
  have d: "deref (st\<lparr>heap := heap st @ hs\<rparr>) (names st) = deref st (names st)" for hs
    by (rule deref_append_heap [OF n])
  have d': "map ((!) (heap st @ hs)) (names st) = deref st (names st)" for hs
    using d [of hs] by (simp add: deref_def)
  have e: "map ((!) (heap st @ hs)) (assignments st) = deref st (assignments st)" for hs
    using deref_append_heap [OF a, of hs] by (simp add: deref_def)
  show "names_out (record_name n scope st) =
           (if \<lparr>b_name = n, b_scope = scope, b_value = None\<rparr> \<in> set (names_out st)
            then names_out st
            else names_out st @ [\<lparr>b_name = n, b_scope = scope, b_value = None\<rparr>])"
    by (simp add: record_name_def names_out_def Let_def deref_def [of "_\<lparr>heap := _\<rparr>"]
        deref_def [of "_\<lparr>names := _\<rparr>"] d')
  show "wf_state (record_name n scope st)"
    using n a by (auto simp: record_name_def wf_state_def Let_def list_all_iff less_Suc_eq)
  show "assignments_out (record_name n scope st) = assignments_out st"
    by (simp add: record_name_def assignments_out_def Let_def deref_def [of "_\<lparr>heap := _\<rparr>"]
        deref_def [of "_\<lparr>names := _\<rparr>"] e)
  show "breakpoints (record_name n scope st) = breakpoints st"
    by (simp add: record_name_def Let_def)
qed

lemma same_frame_out:
  assumes "same_frame st st'"
  shows "names_out st' = names_out st" "assignments_out st' = assignments_out st"
    "wf_state st' = wf_state st" "breakpoints st' = breakpoints st"
  using assms by (simp_all add: same_frame_def names_out_def assignments_out_def deref_def wf_state_def)

lemma py_contains_dict: "py_getitem d k = Inr v \<Longrightarrow> \<exists>kvs. d = PDict kvs \<and> map_of kvs k = Some v"
  by (cases d) (auto split: option.splits)

lemma onExpressionStatement_assignment:
  assumes "is_assignment stmt op left right"
  shows "onExpressionStatement stmt scope st = handleAssignmentExpression stmt scope st"
proof -
  from assms obtain expr where
    e: "py_getitem stmt (u ''expression'') = Inr expr" and
    t: "py_getitem expr (u ''type'') = Inr (PStr (u ''AssignmentExpression''))"
    by (auto simp: is_assignment_def split: sum.splits)
  show ?thesis
    using e t py_getitem_contains [OF e] py_getitem_contains [OF t]
    by (simp add: onExpressionStatement.simps handle_handler_def)
qed

lemma handleAssignmentExpression_recognized:
  assumes "is_assignment stmt op left right" and "op \<in> set ASSIGN_OPERATORS"
    and "left = PDict kvs"
  shows "handleAssignmentExpression stmt scope st =
     (case walk_item left scope
             (case map_of kvs (u ''name'') of None \<Rightarrow> st | Some n \<Rightarrow> record_name n scope st) of
        Inl e \<Rightarrow> Inl e
      | Inr st3 \<Rightarrow>
          (case walk_item right scope st3 of
             Inl e \<Rightarrow> Inl e
           | Inr st4 \<Rightarrow> set_breakpoint stmt scope ASSIGN_BREAKPOINT st4))"
proof -
  from assms(1) obtain expr where
    e: "py_getitem stmt (u ''expression'') = Inr expr" and
    o: "py_getitem expr (u ''operator'') = Inr op" and
    l: "py_getitem expr (u ''left'') = Inr left" and
    r: "py_getitem expr (u ''right'') = Inr right"
    by (auto simp: is_assignment_def split: sum.splits)
  show ?thesis
    using e o l r assms(2,3) py_getitem_contains [OF e] py_getitem_contains [OF o]
    by (simp add: handleAssignmentExpression.simps split: option.split sum.split)
qed



lemma assignment_step:
  assumes a: "is_assignment stmt op left right" and op: "op \<in> set ASSIGN_OPERATORS"
    and l: "inert left" and r: "inert right" and e: "end_line stmt = Inr ln"
    and wf: "wf_state st"
  shows "\<exists>st'. handleAssignmentExpression stmt scope st = Inr st' \<and> wf_state st' \<and>
           assignments_out st' = assignments_out st \<and>
           breakpoints st' = add_breakpoint (assign_point ln scope) (breakpoints st) \<and>
           names_out st' =
             (case py_getitem left (u ''name'') of
                Inl e \<Rightarrow> names_out st
              | Inr n \<Rightarrow>
                  if plain_binding n scope \<in> set (names_out st) then names_out st
                  else names_out st @ [plain_binding n scope])"
proof -
  from l obtain ty where "py_getitem left (u ''type'') = Inr ty"
    by (auto simp: inert_def split: sum.splits)
  then obtain kvs where kvs: "left = PDict kvs"
    by (cases left) auto
  define st2 where "st2 = (case map_of kvs (u ''name'') of None \<Rightarrow> st | Some n \<Rightarrow> record_name n scope st)"
  have st2: "wf_state st2" "assignments_out st2 = assignments_out st"
    "breakpoints st2 = breakpoints st"
    "names_out st2 =
       (case py_getitem left (u ''name'') of
          Inl e \<Rightarrow> names_out st
        | Inr n \<Rightarrow>
            if plain_binding n scope \<in> set (names_out st) then names_out st
            else names_out st @ [plain_binding n scope])"
    using wf record_name_out [OF wf]
    by (simp_all add: st2_def kvs plain_binding_def split: option.split)
  from walk_item_inert [OF l] obtain st3 where
    s3: "walk_item left scope st2 = Inr st3" "same_frame st2 st3" by blast
  from walk_item_inert [OF r] obtain st4 where
    s4: "walk_item right scope st3 = Inr st4" "same_frame st3 st4" by blast
  define st5 where "st5 = st4\<lparr>breakpoints := add_breakpoint (assign_point ln scope) (breakpoints st4)\<rparr>"
  have "handleAssignmentExpression stmt scope st = Inr st5"
    using handleAssignmentExpression_recognized [OF a op kvs, of scope st] s3(1) s4(1) e
    by (simp add: st2_def st5_def set_breakpoint_end_line assign_point_def)
  moreover have "wf_state st5" "assignments_out st5 = assignments_out st"
    "names_out st5 = names_out st2"
    "breakpoints st5 = add_breakpoint (assign_point ln scope) (breakpoints st)"
    using st2(1-3) same_frame_out [OF s3(2)] same_frame_out [OF s4(2)]
    by (simp_all add: st5_def wf_state_def names_out_def assignments_out_def deref_def)
  ultimately show ?thesis
    using st2(4) by simp
qed

lemma assigns_to_step:
  assumes a: "assigns_to x stmt ln" and wf: "wf_state st"
  shows "\<exists>st'. walk_item stmt scope st = Inr st' \<and> wf_state st' \<and>
           breakpoints st' = add_breakpoint (assign_point ln scope) (breakpoints st) \<and>
           names_out st' =
             (if plain_binding x scope \<in> set (names_out st) then names_out st
              else names_out st @ [plain_binding x scope])"
proof -
  from a obtain expr op left right where
    ty: "py_getitem stmt (u ''type'') = Inr (PStr (u ''ExpressionStatement''))" and
    e: "end_line stmt = Inr ln" and
    ia: "is_assignment stmt op left right" and
    op: "op \<in> set ASSIGN_OPERATORS" and
    lt: "py_getitem left (u ''type'') = Inr (PStr (u ''Identifier''))" and
    ln: "py_getitem left (u ''name'') = Inr x" and
    r: "inert right"
    by (auto simp: assigns_to_def is_assignment_def split: sum.splits)
  have l: "inert left"
    using lt by (simp add: inert_def on_handler_def)
  have "walk_item stmt scope st = handleAssignmentExpression stmt scope st"
    using ty onExpressionStatement_assignment [OF ia, of scope st]
    by (simp add: walk_item.simps on_handler_def)
  with assignment_step [OF ia op l r e wf, of scope] ln show ?thesis
    by auto
qed

lemma assignments_loop:
  assumes "list_all2 (assigns_to x) stmts lines" and "wf_state st" and "distinct lines"
    and "\<forall>l\<in>set lines. assign_point l scope \<notin> set (breakpoints st)"
  shows "\<exists>st'. for_loop (\<lambda>item. walk_item item scope) stmts st = Inr st' \<and> wf_state st' \<and>
           breakpoints st' = breakpoints st @ map (\<lambda>l. assign_point l scope) lines \<and>
           names_out st' =
             (if stmts = [] \<or> plain_binding x scope \<in> set (names_out st) then names_out st
              else names_out st @ [plain_binding x scope])"
  using assms
proof (induction stmts lines arbitrary: st rule: list_all2_induct)
  case Nil
  then show ?case by simp
next
  case (Cons s ss l ls)
  from assigns_to_step [OF Cons.hyps(1) Cons.prems(1), of scope] obtain st1 where
    s1: "walk_item s scope st = Inr st1" "wf_state st1"
        "breakpoints st1 = add_breakpoint (assign_point l scope) (breakpoints st)"
        "names_out st1 =
           (if plain_binding x scope \<in> set (names_out st) then names_out st
            else names_out st @ [plain_binding x scope])"
    by blast
  have b1: "breakpoints st1 = breakpoints st @ [assign_point l scope]"
    using s1(3) Cons.prems(3) by (simp add: add_breakpoint_def)
  have inj: "l' = l" if "assign_point l' scope = assign_point l scope" for l'
    using that by (simp add: assign_point_def)
  have fresh: "\<forall>l'\<in>set ls. assign_point l' scope \<notin> set (breakpoints st1)"
    using Cons.prems(2,3) b1 by (auto dest: inj)
  from Cons.IH [OF s1(2) _ fresh] Cons.prems(2) obtain st2 where
    s2: "for_loop (\<lambda>item. walk_item item scope) ss st1 = Inr st2" "wf_state st2"
        "breakpoints st2 = breakpoints st1 @ map (\<lambda>l. assign_point l scope) ls"
        "names_out st2 =
           (if ss = [] \<or> plain_binding x scope \<in> set (names_out st1) then names_out st1
            else names_out st1 @ [plain_binding x scope])"
    by auto
  have "for_loop (\<lambda>item. walk_item item scope) (s # ss) st = Inr st2"
    using s1(1) s2(1) by simp
  moreover have "breakpoints st2 = breakpoints st @ map (\<lambda>l. assign_point l scope) (l # ls)"
    using s2(3) b1 by simp
  moreover have "names_out st2 =
      (if plain_binding x scope \<in> set (names_out st) then names_out st
       else names_out st @ [plain_binding x scope])"
    using s2(4) s1(4) by simp
  ultimately show ?case
    using s2(2) by simp
qed





text \<open>
  C9. The claim: N assignments to one identifier on N lines of one scope give N
  AssignmentPoint breakpoints and a single binding. In \<^verbatim>\<open>testAssign\<close> the four
  assignments to \<^verbatim>\<open>number\<close> follow \<^verbatim>\<open>var number = 0;\<close>. The declaration has put the
  value in the dict it appended to \<^verbatim>\<open>names\<close>, so the plain pair built by the first
  assignment is not found there and is appended: two bindings for \<^verbatim>\<open>number\<close> at the
  top level. The breakpoints are those of lines 2 to 6.
\<close>

theorem assignments_after_declaration_two_bindings:
  "list_all2 (assigns_to (PStr (u ''number''))) four_assignments [PInt 3, PInt 4, PInt 5, PInt 6] \<and>
   map_sum id names_out
     (AST_init (parsed_as prog_test_assign)
        (u ''; var number = 0; number += 1; number -= 1; number *= 2; number /= 3;'') None) =
     Inr [valued_binding (PStr (u ''number'')) PNone (PStr (u ''0'')),
          plain_binding (PStr (u ''number'')) PNone] \<and>
   map_sum id breakpoints
     (AST_init (parsed_as prog_test_assign)
        (u ''; var number = 0; number += 1; number -= 1; number *= 2; number /= 3;'') None) =
     Inr [assign_point (PInt 2) PNone, assign_point (PInt 3) PNone, assign_point (PInt 4) PNone,
          assign_point (PInt 5) PNone, assign_point (PInt 6) PNone]"
proof (intro conjI)
  show "list_all2 (assigns_to (PStr (u ''number''))) four_assignments [PInt 3, PInt 4, PInt 5, PInt 6]"
    by (simp add: four_assignments_def assigns_to_def tree_defs end_line_def inert_def
        on_handler_def ASSIGN_OPERATORS_def)
  show "map_sum id names_out
     (AST_init (parsed_as prog_test_assign)
        (u ''; var number = 0; number += 1; number -= 1; number *= 2; number /= 3;'') None) =
     Inr [valued_binding (PStr (u ''number'')) PNone (PStr (u ''0'')),
          plain_binding (PStr (u ''number'')) PNone]"
    by (simp add: init_defs prog_test_assign_def four_assignments_def tree_defs walk_simps
        handler_defs Let_def valued_binding_def plain_binding_def)
  show "map_sum id breakpoints
     (AST_init (parsed_as prog_test_assign)
        (u ''; var number = 0; number += 1; number -= 1; number *= 2; number /= 3;'') None) =
     Inr [assign_point (PInt 2) PNone, assign_point (PInt 3) PNone, assign_point (PInt 4) PNone,
          assign_point (PInt 5) PNone, assign_point (PInt 6) PNone]"
    by (simp add: init_defs prog_test_assign_def four_assignments_def tree_defs walk_simps
        handler_defs Let_def assign_point_def)
qed

text \<open>
  When the statement list is made of the N assignments alone, walked under one scope
  from the empty state, the count holds: N breakpoints, the AssignmentPoint of each
  line in order, and the single binding of the identifier in that scope.
\<close>

lemma assignments_alone_one_binding:
  assumes "list_all2 (assigns_to x) stmts lines" and "distinct lines" and "stmts \<noteq> []"
  shows "\<exists>st'. walk (PList stmts) scope (empty_state reg) = Inr st' \<and>
           names_out st' = [plain_binding x scope] \<and>
           breakpoints st' = map (\<lambda>l. assign_point l scope) lines \<and>
           length (breakpoints st') = length stmts \<and> distinct (breakpoints st')"
proof -
  have wf: "wf_state (empty_state reg)"
    by (simp add: wf_state_def empty_state_def)
  have fresh: "\<forall>l\<in>set lines. assign_point l scope \<notin> set (breakpoints (empty_state reg))"
    by (simp add: empty_state_def)
  from assignments_loop [OF assms(1) wf assms(2) fresh] obtain st' where
    s: "for_loop (\<lambda>item. walk_item item scope) stmts (empty_state reg) = Inr st'"
       "breakpoints st' = breakpoints (empty_state reg) @ map (\<lambda>l. assign_point l scope) lines"
       "names_out st' =
          (if stmts = [] \<or> plain_binding x scope \<in> set (names_out (empty_state reg))
           then names_out (empty_state reg)
           else names_out (empty_state reg) @ [plain_binding x scope])"
    by blast
  have len: "length lines = length stmts"
    using assms(1) by (simp add: list_all2_lengthD)
  have "walk (PList stmts) scope (empty_state reg) = Inr st'"
    using s(1) by (simp add: walk.simps)
  moreover have "names_out st' = [plain_binding x scope]"
    using s(3) assms(3) by (simp add: names_out_def deref_def empty_state_def)
  moreover have "breakpoints st' = map (\<lambda>l. assign_point l scope) lines"
    using s(2) by (simp add: empty_state_def)
  moreover have "distinct (map (\<lambda>l. assign_point l scope) lines)"
    using assms(2) by (simp add: distinct_map inj_on_def assign_point_def)
  ultimately show ?thesis
    using len by simp
qed

lemma assignments_alone_one_binding_example:
  "list_all2 (assigns_to (PStr (u ''number''))) four_assignments [PInt 3, PInt 4, PInt 5, PInt 6] \<and>
   (\<exists>st'. walk (PList four_assignments) PNone (empty_state None) = Inr st' \<and>
      names_out st' = [plain_binding (PStr (u ''number'')) PNone] \<and>
      breakpoints st' =
        [assign_point (PInt 3) PNone, assign_point (PInt 4) PNone, assign_point (PInt 5) PNone,
         assign_point (PInt 6) PNone] \<and>
      length (breakpoints st') = 4)"
proof -
  have a: "list_all2 (assigns_to (PStr (u ''number''))) four_assignments [PInt 3, PInt 4, PInt 5, PInt 6]"
    by (simp add: four_assignments_def assigns_to_def tree_defs end_line_def inert_def
        on_handler_def ASSIGN_OPERATORS_def)
  have d: "distinct [PInt 3, PInt 4, PInt 5, PInt 6]" and n: "four_assignments \<noteq> []"
    by (simp_all add: four_assignments_def)
  have len: "length four_assignments = 4"
    by (simp add: four_assignments_def)
  from assignments_alone_one_binding [OF a d n, of PNone None] obtain st' where
    "walk (PList four_assignments) PNone (empty_state None) = Inr st'"
    "names_out st' = [plain_binding (PStr (u ''number'')) PNone]"
    "breakpoints st' = map (\<lambda>l. assign_point l PNone) [PInt 3, PInt 4, PInt 5, PInt 6]"
    "length (breakpoints st') = length four_assignments"
    by blast
  then show ?thesis
    using a len by simp
qed

section \<open>Growth of the recorded sequences\<close>

text \<open>
  The traversal only appends. \<open>ext S st st'\<close>: the store, the two address lists and
  the breakpoints of \<open>st'\<close> extend those of \<open>st\<close>; every new dict and every new
  breakpoint has its scope in \<open>S\<close>; every new address points into the new part of the
  store; and every new address of \<^verbatim>\<open>assignments\<close> has an address in \<^verbatim>\<open>names\<close> with
  the same name and scope. \<open>grows\<close> is \<open>ext\<close> together with the preservation of
  well-formedness (no dangling address).
\<close>

definition ext :: "pyval set \<Rightarrow> ast_state \<Rightarrow> ast_state \<Rightarrow> bool" where
  "ext S st st' \<longleftrightarrow>
     (\<exists>hs ns as bs.
        heap st' = heap st @ hs \<and> names st' = names st @ ns \<and>
        assignments st' = assignments st @ as \<and> breakpoints st' = breakpoints st @ bs \<and>
        (\<forall>b\<in>set hs. b_scope b \<in> S) \<and>
        (\<forall>a\<in>set ns \<union> set as. length (heap st) \<le> a \<and> a < length (heap st')) \<and>
        (\<forall>bp\<in>set bs. bp_scope bp \<in> S) \<and>
        (\<forall>a\<in>set as. \<exists>m\<in>set (names st').
            b_name (heap st' ! m) = b_name (heap st' ! a) \<and>
            b_scope (heap st' ! m) = b_scope (heap st' ! a)))"

definition grows :: "pyval set \<Rightarrow> ast_state \<Rightarrow> ast_state \<Rightarrow> bool" where
  "grows S st st' \<longleftrightarrow> (wf_state st \<longrightarrow> wf_state st' \<and> ext S st st')"

lemma wf_stateD:
  "wf_state st \<Longrightarrow> a \<in> set (names st) \<Longrightarrow> a < length (heap st)"
  "wf_state st \<Longrightarrow> a \<in> set (assignments st) \<Longrightarrow> a < length (heap st)"
  by (auto simp: wf_state_def list_all_iff)

lemma ext_refl: "ext S st st"
  by (simp add: ext_def)

lemma ext_mono: "ext S st st' \<Longrightarrow> S \<subseteq> T \<Longrightarrow> ext T st st'"
  unfolding ext_def by blast

lemma ext_trans:
  assumes 1: "ext S a b" and 2: "ext S b c" and wb: "wf_state b"
  shows "ext S a c"
proof -
  from 1 obtain hs ns as bs where
    h1: "heap b = heap a @ hs" and n1: "names b = names a @ ns" and
    a1: "assignments b = assignments a @ as" and b1: "breakpoints b = breakpoints a @ bs" and
    s1: "\<forall>x\<in>set hs. b_scope x \<in> S" and
    r1: "\<forall>x\<in>set ns \<union> set as. length (heap a) \<le> x \<and> x < length (heap b)" and
    p1: "\<forall>bp\<in>set bs. bp_scope bp \<in> S" and
    m1: "\<forall>x\<in>set as. \<exists>m\<in>set (names b).
            b_name (heap b ! m) = b_name (heap b ! x) \<and>
            b_scope (heap b ! m) = b_scope (heap b ! x)"
    unfolding ext_def by blast
  from 2 obtain hs' ns' as' bs' where
    h2: "heap c = heap b @ hs'" and n2: "names c = names b @ ns'" and
    a2: "assignments c = assignments b @ as'" and b2: "breakpoints c = breakpoints b @ bs'" and
    s2: "\<forall>x\<in>set hs'. b_scope x \<in> S" and
    r2: "\<forall>x\<in>set ns' \<union> set as'. length (heap b) \<le> x \<and> x < length (heap c)" and
    p2: "\<forall>bp\<in>set bs'. bp_scope bp \<in> S" and
    m2: "\<forall>x\<in>set as'. \<exists>m\<in>set (names c).
            b_name (heap c ! m) = b_name (heap c ! x) \<and>
            b_scope (heap c ! m) = b_scope (heap c ! x)"
    unfolding ext_def by blast
  have keep: "heap c ! x = heap b ! x" if "x < length (heap b)" for x
    using that h2 by (simp add: nth_append)
  have m: "\<forall>x\<in>set (as @ as'). \<exists>m\<in>set (names c).
            b_name (heap c ! m) = b_name (heap c ! x) \<and>
            b_scope (heap c ! m) = b_scope (heap c ! x)"
  proof
    fix x assume "x \<in> set (as @ as')"
    then consider "x \<in> set as" | "x \<in> set as'" by auto
    then show "\<exists>m\<in>set (names c).
            b_name (heap c ! m) = b_name (heap c ! x) \<and>
            b_scope (heap c ! m) = b_scope (heap c ! x)"
    proof cases
      case 1
      with m1 obtain m where mm: "m \<in> set (names b)"
        "b_name (heap b ! m) = b_name (heap b ! x)" "b_scope (heap b ! m) = b_scope (heap b ! x)"
        by blast
      have "m < length (heap b)" using wf_stateD(1) [OF wb mm(1)] .
      then have km: "heap c ! m = heap b ! m" by (rule keep)
      have "x < length (heap b)" using r1 1 by simp
      then have kx: "heap c ! x = heap b ! x" by (rule keep)
      have "m \<in> set (names c)" using mm(1) n2 by simp
      then show ?thesis using mm(2,3) km kx by (intro bexI [of _ m]) simp_all
    next
      case 2
      with m2 show ?thesis by blast
    qed
  qed
  have la: "length (heap a) \<le> length (heap b)" using h1 by simp
  have lb: "length (heap b) \<le> length (heap c)" using h2 by simp
  have r: "\<forall>x\<in>set (ns @ ns') \<union> set (as @ as'). length (heap a) \<le> x \<and> x < length (heap c)"
  proof
    fix x assume "x \<in> set (ns @ ns') \<union> set (as @ as')"
    then consider "x \<in> set ns \<union> set as" | "x \<in> set ns' \<union> set as'" by auto
    then show "length (heap a) \<le> x \<and> x < length (heap c)"
    proof cases
      case 1
      then have "length (heap a) \<le> x \<and> x < length (heap b)" using r1 by blast
      then show ?thesis using lb by linarith
    next
      case 2
      then have "length (heap b) \<le> x \<and> x < length (heap c)" using r2 by blast
      then show ?thesis using la by linarith
    qed
  qed
  show ?thesis
    unfolding ext_def
    apply (rule exI [of _ "hs @ hs'"], rule exI [of _ "ns @ ns'"])
    apply (rule exI [of _ "as @ as'"], rule exI [of _ "bs @ bs'"])
    using h1 h2 n1 n2 a1 a2 b1 b2 s1 s2 p1 p2 m r
    apply (intro conjI)
    apply simp_all
    apply blast+
    done
qed

lemma grows_refl: "grows S st st"
  by (simp add: grows_def ext_refl)

lemma grows_mono: "grows S st st' \<Longrightarrow> S \<subseteq> T \<Longrightarrow> grows T st st'"
  unfolding grows_def using ext_mono by blast

lemma grows_trans: "grows S a b \<Longrightarrow> grows S b c \<Longrightarrow> grows S a c"
  unfolding grows_def using ext_trans by blast

lemma same_frame_grows: "same_frame st st' \<Longrightarrow> grows S st st'"
  by (simp add: grows_def ext_def same_frame_def wf_state_def)

text \<open>
  \<open>one_binding n scope st st'\<close>: what the first half of a declarator does. A fresh dict
  for \<open>(n, scope)\<close> is allocated, and its address is appended to \<^verbatim>\<open>names\<close> unless an
  equal dict is already there.
\<close>

definition one_binding :: "pyval \<Rightarrow> pyval \<Rightarrow> ast_state \<Rightarrow> ast_state \<Rightarrow> bool" where
  "one_binding n scope st st' \<longleftrightarrow>
     heap st' = heap st @ [plain_binding n scope] \<and>
     (names st' = names st @ [length (heap st)] \<or>
      names st' = names st \<and> plain_binding n scope \<in> set (names_out st)) \<and>
     assignments st' = assignments st \<and>
     (\<exists>bs. breakpoints st' = breakpoints st @ bs \<and> (\<forall>bp\<in>set bs. bp_scope bp = scope))"

lemma record_name_one_binding:
  assumes "wf_state st"
  shows "one_binding n scope st (record_name n scope st)"
proof -
  have "list_all (\<lambda>a. a < length (heap st)) (names st)"
    using assms by (simp add: wf_state_def)
  from deref_append_heap [OF this, of "[\<lparr>b_name = n, b_scope = scope, b_value = None\<rparr>]"]
  have "deref (st\<lparr>heap := heap st @ [\<lparr>b_name = n, b_scope = scope, b_value = None\<rparr>]\<rparr>) (names st) =
          names_out st"
    by (simp add: names_out_def)
  then show ?thesis
    by (simp add: one_binding_def record_name_def Let_def plain_binding_def)
qed

lemma one_binding_breakpoint:
  assumes "one_binding n scope st st'"
  shows "one_binding n scope st
           (st'\<lparr>breakpoints := add_breakpoint \<lparr>bp_type = ty, bp_line = l, bp_scope = scope\<rparr> (breakpoints st')\<rparr>)"
proof -
  from assms obtain bs where bs: "breakpoints st' = breakpoints st @ bs"
    "\<forall>bp\<in>set bs. bp_scope bp = scope"
    by (auto simp: one_binding_def)
  let ?bp = "\<lparr>bp_type = ty, bp_line = l, bp_scope = scope\<rparr>"
  have "\<exists>bs'. add_breakpoint ?bp (breakpoints st') = breakpoints st @ bs' \<and>
          (\<forall>bp\<in>set bs'. bp_scope bp = scope)"
  proof (cases "?bp \<in> set (breakpoints st')")
    case True
    then show ?thesis using bs by (simp add: add_breakpoint_def)
  next
    case False
    then have "add_breakpoint ?bp (breakpoints st') = breakpoints st @ (bs @ [?bp])"
      using bs(1) by (simp add: add_breakpoint_def)
    moreover have "\<forall>bp\<in>set (bs @ [?bp]). bp_scope bp = scope"
      using bs(2) by simp
    ultimately show ?thesis by blast
  qed
  then show ?thesis
    using assms by (simp add: one_binding_def)
qed

lemma one_binding_grows:
  assumes o: "one_binding n scope st st'" and s: "scope \<in> S"
  shows "grows S st st'"
  unfolding grows_def
proof (intro impI conjI)
  assume wf: "wf_state st"
  from o obtain bs where h: "heap st' = heap st @ [plain_binding n scope]"
    and nm: "names st' = names st @ [length (heap st)] \<or> names st' = names st"
    and a: "assignments st' = assignments st"
    and b: "breakpoints st' = breakpoints st @ bs" "\<forall>bp\<in>set bs. bp_scope bp = scope"
    by (auto simp: one_binding_def)
  show "wf_state st'"
    using wf nm h a by (auto simp: wf_state_def list_all_iff less_Suc_eq)
  from nm obtain ns where ns: "names st' = names st @ ns" "ns = [length (heap st)] \<or> ns = []"
    by auto
  show "ext S st st'"
    unfolding ext_def
    apply (rule exI [of _ "[plain_binding n scope]"], rule exI [of _ ns])
    apply (rule exI [of _ "[]"], rule exI [of _ bs])
    using h ns a b s
    apply (intro conjI)
    apply (simp_all add: plain_binding_def)
    apply auto
    done
qed

lemma one_binding_record_value:
  assumes o: "one_binding n scope st st3" and s: "scope \<in> S"
  shows "grows S st (record_value (length (heap st)) raw st3)"
  unfolding grows_def
proof (intro impI)
  assume wf: "wf_state st"
  define a where "a = length (heap st)"
  define valued where "valued = \<lparr>b_name = n, b_scope = scope, b_value = Some raw\<rparr>"
  define st' where "st' = record_value a raw st3"
  from o obtain bs where h3: "heap st3 = heap st @ [plain_binding n scope]"
    and nm: "names st3 = names st @ [a] \<or>
             names st3 = names st \<and> plain_binding n scope \<in> set (names_out st)"
    and a3: "assignments st3 = assignments st"
    and b3: "breakpoints st3 = breakpoints st @ bs" "\<forall>bp\<in>set bs. bp_scope bp = scope"
    by (auto simp: one_binding_def a_def)
  have at: "(heap st3 ! a)\<lparr>b_value := Some raw\<rparr> = valued"
    by (simp add: h3 a_def valued_def plain_binding_def)
  have h': "heap st' = heap st @ [valued]"
    by (simp add: st'_def record_value_def Let_def at) (simp add: h3 a_def)
  have n': "names st' = names st3"
    by (simp add: st'_def record_value_def Let_def)
  have b': "breakpoints st' = breakpoints st @ bs"
    using b3(1) by (simp add: st'_def record_value_def Let_def)
  have "assignments st' = assignments st \<or> assignments st' = assignments st @ [a]"
    using a3 by (simp add: st'_def record_value_def Let_def)
  then obtain as where as: "assignments st' = assignments st @ as" "as = [] \<or> as = [a]"
    by auto
  from nm obtain ns where ns: "names st3 = names st @ ns" "ns = [] \<or> ns = [a]"
    by auto
  have old: "heap st' ! m = heap st ! m" if "m < a" for m
    using that by (simp add: h' a_def nth_append)
  have new: "heap st' ! a = valued"
    by (simp add: h' a_def)
  have wf': "wf_state st'"
    using wf ns as n' h' by (auto simp: wf_state_def list_all_iff less_Suc_eq a_def)
  have match: "\<exists>m\<in>set (names st').
            b_name (heap st' ! m) = b_name (heap st' ! a) \<and>
            b_scope (heap st' ! m) = b_scope (heap st' ! a)"
    using nm
  proof
    assume "names st3 = names st @ [a]"
    then have "a \<in> set (names st')" using n' by simp
    then show ?thesis by blast
  next
    assume "names st3 = names st \<and> plain_binding n scope \<in> set (names_out st)"
    then obtain m where m: "m \<in> set (names st)" "heap st ! m = plain_binding n scope"
      and eq: "names st3 = names st"
      by (auto simp: names_out_def deref_def)
    have "m < a" using wf_stateD(1) [OF wf m(1)] by (simp add: a_def)
    then have "heap st' ! m = plain_binding n scope" using old m(2) by simp
    moreover have "m \<in> set (names st')" using m(1) eq n' by simp
    ultimately show ?thesis
      by (intro bexI [of _ m]) (simp_all add: new valued_def plain_binding_def)
  qed
  have "ext S st st'"
    unfolding ext_def
    apply (rule exI [of _ "[valued]"], rule exI [of _ ns])
    apply (rule exI [of _ as], rule exI [of _ bs])
    using h' n' ns as b' b3(2) s match
    apply (intro conjI)
    apply (simp_all add: valued_def)
    apply (auto simp: a_def)
    done
  with wf' show "wf_state (record_value (length (heap st)) raw st3) \<and>
      ext S st (record_value (length (heap st)) raw st3)"
    by (simp add: st'_def a_def)
qed

lemma declarator_grows:
  assumes "scope \<in> S"
  shows "returns (declarator scope decl st) (grows S st)"
proof (cases "wf_state st")
  case False
  then show ?thesis by (simp add: returns_def grows_def)
next
  case True
  note o1 = record_name_one_binding [OF True]
  note o2 = one_binding_breakpoint [OF o1]
  note g = grows_refl one_binding_grows [OF o1 assms] one_binding_grows [OF o2 assms]
    one_binding_record_value [OF o2 assms]
  show ?thesis
    apply (simp add: declarator_def returns_simps Let_def set_breakpoint_end_line)
    apply (simp add: returns_def g)
    done
qed

lemma for_loop_grows:
  assumes "\<And>x s. x \<in> set xs \<Longrightarrow> returns (f x s) (grows S s)"
  shows "returns (for_loop f xs st) (grows S st)"
proof (rule for_loop_returns)
  show "grows S st st" by (rule grows_refl)
  show "returns (f x s) (grows S st)" if "x \<in> set xs" "grows S st s" for x s
    by (rule returns_mono [OF assms [OF that(1)]]) (rule grows_trans [OF that(2)])
qed

lemma returns_grows_trans:
  "grows S st s \<Longrightarrow> returns m (grows S s) \<Longrightarrow> returns m (grows S st)"
  unfolding returns_def using grows_trans by blast

lemma returns_grows_mono:
  "returns m (grows S st) \<Longrightarrow> S \<subseteq> T \<Longrightarrow> returns m (grows T st)"
  unfolding returns_def using grows_mono by blast

lemma onVariableDeclaration_grows:
  assumes "scope \<in> S"
  shows "returns (onVariableDeclaration item scope st) (grows S st)"
proof -
  have loop: "returns (for_loop (declarator scope) ds st) (grows S st)" for ds
    by (rule for_loop_grows) (rule declarator_grows [OF assms])
  show ?thesis
    apply (simp add: onVariableDeclaration_def returns_simps)
    apply (simp add: returns_def [of "py_contains _ _"] returns_def [of "py_getitem _ _"]
        returns_def [of "py_iter _"] loop grows_refl)
    done
qed

lemma add_breakpoint_grows:
  assumes "bp_scope bp \<in> S"
  shows "grows S st (st\<lparr>breakpoints := add_breakpoint bp (breakpoints st)\<rparr>)"
proof -
  obtain bs where bs: "add_breakpoint bp (breakpoints st) = breakpoints st @ bs"
    "\<forall>b\<in>set bs. bp_scope b \<in> S"
    using assms by (cases "bp \<in> set (breakpoints st)") (auto simp: add_breakpoint_def)
  have "ext S st (st\<lparr>breakpoints := add_breakpoint bp (breakpoints st)\<rparr>)"
    unfolding ext_def
    apply (rule exI [of _ "[]"], rule exI [of _ "[]"])
    apply (rule exI [of _ "[]"], rule exI [of _ bs])
    using bs apply simp
    done
  then show ?thesis
    by (simp add: grows_def wf_state_def)
qed

lemma set_breakpoint_grows:
  assumes "scope \<in> S"
  shows "returns (set_breakpoint stmt scope ty st) (grows S st)"
  using assms
  by (simp add: set_breakpoint_end_line returns_def add_breakpoint_grows split: sum.split)

lemma onReturnStatement_frame: "returns (onReturnStatement stmt scope st) (same_frame st)"
  apply (simp add: onReturnStatement_def returns_simps)
  apply (simp add: returns_def)
  done

lemma same_frame_returns_grows:
  "returns m (same_frame st) \<Longrightarrow> returns m (grows S st)"
  unfolding returns_def using same_frame_grows by blast

lemma map_of_fnames: "map_of kvs k = Some v \<Longrightarrow> fnames v \<subseteq> fnames (PDict kvs)"
  by (auto dest!: map_of_SomeD)

lemma py_getitem_fnames: "py_getitem d k = Inr v \<Longrightarrow> fnames v \<subseteq> fnames d"
  by (cases d) (auto split: option.splits dest!: map_of_SomeD)

lemma py_get_fnames: "py_get d k = Inr v \<Longrightarrow> fnames v \<subseteq> fnames d"
  by (cases d) (auto split: option.splits dest!: map_of_SomeD)

lemma py_iter_fnames: "py_iter b = Inr xs \<Longrightarrow> x \<in> set xs \<Longrightarrow> fnames x \<subseteq> fnames b"
  by (cases b) auto

lemma on_handler_function:
  "on_handler ty = Some OnFunctionDeclaration \<Longrightarrow> ty = PStr (u ''FunctionDeclaration'')"
  by (cases ty) (auto simp: on_handler_def split: if_splits)

lemma own_name_fnames:
  assumes "py_getitem decl (u ''type'') = Inr (PStr (u ''FunctionDeclaration''))"
    and "py_getitem decl (u ''id'') = Inr i" and "py_getitem i (u ''name'') = Inr f"
  shows "f \<in> fnames decl"
  using assms by (cases decl) (auto split: option.splits)

lemmas leaf_returns = returns_def [of "py_contains _ _"] returns_def [of "py_getitem _ _"]
  returns_def [of "py_get _ _"] returns_def [of "py_iter _"]

lemma record_name_grows:
  assumes "scope \<in> S"
  shows "grows S st (record_name n scope st)"
proof (cases "wf_state st")
  case True
  show ?thesis
    by (rule one_binding_grows [OF record_name_one_binding [OF True] assms])
next
  case False
  then show ?thesis by (simp add: grows_def)
qed

lemma assignment_tail_grows:
  assumes g0: "grows S st st2"
    and L: "returns (walk_item left scope st2) (grows S st2)"
    and R: "\<And>st3 r. walk_item left scope st2 = Inr st3 \<Longrightarrow> py_getitem expr (u ''right'') = Inr r \<Longrightarrow>
              returns (walk_item r scope st3) (grows S st3)"
    and sc: "scope \<in> S"
  shows "returns (walk_item left scope st2)
           (\<lambda>st3. \<forall>r. py_getitem expr (u ''right'') = Inr r \<longrightarrow>
                     returns (walk_item r scope st3)
                       (\<lambda>st4. returns (set_breakpoint stmt scope ASSIGN_BREAKPOINT st4) (grows S st)))"
  unfolding returns_def
proof (intro allI impI)
  fix st3 r st4 st'
  assume 1: "walk_item left scope st2 = Inr st3" and 2: "py_getitem expr (u ''right'') = Inr r"
    and 3: "walk_item r scope st3 = Inr st4"
    and 4: "set_breakpoint stmt scope ASSIGN_BREAKPOINT st4 = Inr st'"
  have a: "grows S st2 st3" using L 1 by (rule returnsD)
  have b: "grows S st3 st4" using R [OF 1 2] 3 by (rule returnsD)
  have c: "grows S st4 st'" using set_breakpoint_grows [OF sc] 4 by (rule returnsD)
  show "grows S st st'"
    by (rule grows_trans [OF grows_trans [OF grows_trans [OF g0 a] b] c])
qed

lemma traversal_grows:
  shows "returns (walk b sc1 st1) (grows (insert sc1 (fnames b)) st1)"
    and "returns (walk_item i sc2 st2) (grows (insert sc2 (fnames i)) st2)"
    and "returns (onExpressionStatement e sc3 st3) (grows (insert sc3 (fnames e)) st3)"
    and "returns (handleAssignmentExpression a sc4 st4) (grows (insert sc4 (fnames a)) st4)"
    and "py_getitem d (u ''type'') = Inr (PStr (u ''FunctionDeclaration'')) \<longrightarrow>
           returns (onFunctionDeclaration d sc5 st5) (grows (insert sc5 (fnames d)) st5)"
    and "returns (onIfStatement c sc6 st6) (grows (insert sc6 (fnames c)) st6)"
proof (induction b sc1 st1 and i sc2 st2 and e sc3 st3 and a sc4 st4 and d sc5 st5 and c sc6 st6
    rule: walk_walk_item_onExpressionStatement_handleAssignmentExpression_onFunctionDeclaration_onIfStatement.induct)
  case (1 body scope st)
  show ?case
  proof (cases "body = PNone")
    case True
    then show ?thesis by (simp add: walk.simps returns_Inl)
  next
    case False
    show ?thesis
    proof (cases "py_iter body")
      case (Inl e)
      then show ?thesis using False by (simp add: walk.simps returns_Inl)
    next
      case (Inr items)
      have "returns (for_loop (\<lambda>item. walk_item item scope) items st)
              (grows (insert scope (fnames body)) st)"
      proof (rule for_loop_grows)
        fix x s assume x: "x \<in> set items"
        have "returns (walk_item x scope s) (grows (insert scope (fnames x)) s)"
          by (rule "1.IH" [OF False Inr x])
        then show "returns (walk_item x scope s) (grows (insert scope (fnames body)) s)"
          using py_iter_fnames [OF Inr x] by (auto intro: returns_grows_mono)
      qed
      then show ?thesis using False Inr by (simp add: walk.simps)
    qed
  qed
next
  case (2 item scope st)
  show ?case
  proof (cases "py_getitem item (u ''type'')")
    case (Inl e)
    then show ?thesis by (simp add: walk_item.simps returns_Inl)
  next
    case (Inr ty)
    show ?thesis
    proof (cases "on_handler ty")
      case None
      then show ?thesis using Inr by (simp add: walk_item.simps returns_Inr grows_refl)
    next
      case (Some h)
      show ?thesis
      proof (cases h)
        case OnExpressionStatement
        then show ?thesis
          using Inr Some "2.IH"(1) [OF Inr Some] by (simp add: walk_item.simps)
      next
        case OnVariableDeclaration
        then show ?thesis
          using Inr Some by (simp add: walk_item.simps onVariableDeclaration_grows)
      next
        case OnFunctionDeclaration
        then have "ty = PStr (u ''FunctionDeclaration'')"
          using Some on_handler_function by simp
        then show ?thesis
          using Inr Some OnFunctionDeclaration "2.IH"(2) [OF Inr Some]
          by (simp add: walk_item.simps)
      next
        case OnIfStatement
        then show ?thesis
          using Inr Some "2.IH"(3) [OF Inr Some] by (simp add: walk_item.simps)
      next
        case OnForStatement
        then show ?thesis
          using Inr Some by (simp add: walk_item.simps onForStatement_def set_breakpoint_grows)
      next
        case OnWhileStatement
        then show ?thesis
          using Inr Some by (simp add: walk_item.simps onWhileStatement_def set_breakpoint_grows)
      next
        case OnDoWhileStatement
        then show ?thesis
          using Inr Some by (simp add: walk_item.simps onDoWhileStatement_def set_breakpoint_grows)
      next
        case OnForInStatement
        then show ?thesis
          using Inr Some by (simp add: walk_item.simps onForInStatement_def set_breakpoint_grows)
      next
        case OnLiteral
        then show ?thesis
          using Inr Some
          by (simp add: walk_item.simps same_frame_returns_grows [OF onLiteral_frame])
      next
        case OnReturnStatement
        then show ?thesis
          using Inr Some
          by (simp add: walk_item.simps same_frame_returns_grows [OF onReturnStatement_frame])
      qed
    qed
  qed
next
  case (3 stmt scope st)
  show ?case
    apply (simp add: onExpressionStatement.simps returns_simps)
    apply (simp add: leaf_returns grows_refl)
    apply (intro allI impI)
    apply (simp split: option.split expr_handler.split
        add: returns_simps grows_refl same_frame_returns_grows [OF handleCallExpression_frame])
    apply (intro allI impI)
    apply (rule "3.IH"; assumption?)
      apply simp_all
    done
next
  case (4 stmt scope st)
  let ?S = "insert scope (fnames stmt)"
  show ?case
    apply (simp add: handleAssignmentExpression.simps returns_simps)
    apply (simp add: leaf_returns grows_refl)
    apply (intro allI impI conjI)
    subgoal premises p for x xa xb xc xd xe xf
    proof (rule assignment_tail_grows)
      have sub: "fnames xd \<subseteq> fnames stmt"
        using py_getitem_fnames [OF p(3)] py_getitem_fnames [OF p(8)] by blast
      show "scope \<in> ?S" by simp
      show "grows ?S st (record_name xf scope st)"
        by (rule record_name_grows) simp
      have "returns (walk_item xd scope (record_name xf scope st))
              (grows (insert scope (fnames xd)) (record_name xf scope st))"
        by (rule "4.IH"(1) [where b = x and ba = xa and bb = xb and bc = xc and be = xe])
          (simp_all add: p)
      then show "returns (walk_item xd scope (record_name xf scope st))
              (grows ?S (record_name xf scope st))"
        using sub by (auto intro: returns_grows_mono)
      fix st3 r
      assume w: "walk_item xd scope (record_name xf scope st) = Inr st3"
        and r: "py_getitem xa (u ''right'') = Inr r"
      have subr: "fnames r \<subseteq> fnames stmt"
        using py_getitem_fnames [OF p(3)] py_getitem_fnames [OF r] by blast
      have "returns (walk_item r scope st3) (grows (insert scope (fnames r)) st3)"
        by (rule "4.IH"(2) [where b = x and ba = xa and bb = xb and bc = xc and be = xe
              and bf = "record_name xf scope st" and bd = xd])
          (simp_all add: p w r)
      then show "returns (walk_item r scope st3) (grows ?S st3)"
        using subr by (auto intro: returns_grows_mono)
    qed
    subgoal premises p for x xa xb xc xd xe
    proof (rule assignment_tail_grows)
      have sub: "fnames xd \<subseteq> fnames stmt"
        using py_getitem_fnames [OF p(3)] py_getitem_fnames [OF p(8)] by blast
      show "scope \<in> ?S" by simp
      show "grows ?S st st"
        by (rule grows_refl)
      have "returns (walk_item xd scope st) (grows (insert scope (fnames xd)) st)"
        by (rule "4.IH"(1) [where b = x and ba = xa and bb = xb and bc = xc and be = xe])
          (simp_all add: p)
      then show "returns (walk_item xd scope st) (grows ?S st)"
        using sub by (auto intro: returns_grows_mono)
      fix st3 r
      assume w: "walk_item xd scope st = Inr st3"
        and r: "py_getitem xa (u ''right'') = Inr r"
      have subr: "fnames r \<subseteq> fnames stmt"
        using py_getitem_fnames [OF p(3)] py_getitem_fnames [OF r] by blast
      have "returns (walk_item r scope st3) (grows (insert scope (fnames r)) st3)"
        by (rule "4.IH"(2) [where b = x and ba = xa and bb = xb and bc = xc and be = xe
              and bf = st and bd = xd])
          (simp_all add: p w r)
      then show "returns (walk_item r scope st3) (grows ?S st3)"
        using subr by (auto intro: returns_grows_mono)
    qed
    done
next
  case (5 decl scope st)
  show ?case
    apply (simp add: onFunctionDeclaration.simps returns_simps)
    apply (simp add: leaf_returns grows_refl)
    apply (intro allI impI conjI)
    subgoal premises p for x xa xb xc xd xe xf xg
    proof -
      have "xc \<in> fnames decl"
        by (rule own_name_fnames [OF p(1) p(4) p(7)])
      moreover have "fnames xg \<subseteq> fnames decl"
        using py_getitem_fnames [OF p(10)] py_getitem_fnames [OF p(13)] by blast
      ultimately have sub: "insert xc (fnames xg) \<subseteq> insert scope (fnames decl)"
        by blast
      have "returns (walk xg xc st) (grows (insert xc (fnames xg)) st)"
        by (rule "5.IH" [where b = x and ba = xa and bb = xb and bd = xd and be = xe and bf = xf])
          (simp_all add: p)
      then show ?thesis
        using sub by (rule returns_grows_mono)
    qed
    done
next
  case (6 stmt scope st)
  let ?S = "insert scope (fnames stmt)"
  have sub: "insert scope (fnames body) \<subseteq> ?S"
    if "py_getitem stmt k = Inr br" "py_get br (u ''body'') = Inr body" for k br body
    using py_getitem_fnames [OF that(1)] py_get_fnames [OF that(2)] by blast
  show ?case
    apply (simp add: onIfStatement.simps returns_simps)
    apply (simp add: leaf_returns grows_refl)
    apply (intro allI impI conjI)
    subgoal premises p for x xa xb
    proof -
      have "returns (walk xb scope st) (grows (insert scope (fnames xb)) st)"
        by (rule "6.IH"(1) [OF p])
      then have "returns (walk xb scope st) (grows ?S st)"
        using sub [OF p(3,4)] by (rule returns_grows_mono)
      then have g1: "grows ?S st st1" if "walk xb scope st = Inr st1" for st1
        using that by (rule returnsD)
      show ?thesis
        unfolding returns_def
      proof (intro allI impI conjI)
        fix st1 c cons body st2
        assume w: "walk xb scope st = Inr st1"
          and c: "py_contains (u ''consequent'') stmt = Inr c" "c"
          and cons: "py_getitem stmt (u ''consequent'') = Inr cons"
          and body: "py_get cons (u ''body'') = Inr body" "truthy body"
          and w2: "walk body scope st1 = Inr st2"
        have "returns (walk body scope st1) (grows (insert scope (fnames body)) st1)"
          by (rule "6.IH"(2) [where b = x and bb = c and bc = cons])
            (simp_all add: p w c cons body)
        then have "returns (walk body scope st1) (grows ?S st1)"
          using sub [OF cons body(1)] by (rule returns_grows_mono)
        then have "grows ?S st1 st2"
          using w2 by (rule returnsD)
        with g1 [OF w] show "grows ?S st st2"
          by (rule grows_trans)
      next
        fix st1 assume "walk xb scope st = Inr st1"
        then show "grows ?S st st1" by (rule g1)
      next
        fix st1 assume "walk xb scope st = Inr st1"
        then show "grows ?S st st1" by (rule g1)
      qed
    qed
    subgoal premises p for x xa xb xc xd xe
    proof -
      have "returns (walk xe scope st) (grows (insert scope (fnames xe)) st)"
        by (rule "6.IH"(2) [where b = x and bb = xc and bc = xd]) (simp_all add: p)
      then show ?thesis
        using sub [OF p(8,9)] by (rule returns_grows_mono)
    qed
    subgoal premises p for x xa xb xc
    proof -
      have "returns (walk xc scope st) (grows (insert scope (fnames xc)) st)"
        by (rule "6.IH"(2) [where b = x and bb = xa and bc = xb]) (simp_all add: p)
      then show ?thesis
        using sub [OF p(5,6)] by (rule returns_grows_mono)
    qed
    done
qed

lemma ext_outputs:
  assumes e: "ext S st st'" and wf: "wf_state st"
  shows "\<exists>ns as bs.
           names_out st' = names_out st @ ns \<and> assignments_out st' = assignments_out st @ as \<and>
           breakpoints st' = breakpoints st @ bs \<and>
           (\<forall>b\<in>set ns \<union> set as. b_scope b \<in> S) \<and> (\<forall>bp\<in>set bs. bp_scope bp \<in> S) \<and>
           (\<forall>a\<in>set as. \<exists>b\<in>set (names_out st'). b_name b = b_name a \<and> b_scope b = b_scope a)"
proof -
  from e obtain hs ns as bs where
    h: "heap st' = heap st @ hs" and n: "names st' = names st @ ns" and
    a: "assignments st' = assignments st @ as" and b: "breakpoints st' = breakpoints st @ bs" and
    s: "\<forall>x\<in>set hs. b_scope x \<in> S" and
    r: "\<forall>x\<in>set ns \<union> set as. length (heap st) \<le> x \<and> x < length (heap st')" and
    p: "\<forall>bp\<in>set bs. bp_scope bp \<in> S" and
    m: "\<forall>x\<in>set as. \<exists>m\<in>set (names st').
            b_name (heap st' ! m) = b_name (heap st' ! x) \<and>
            b_scope (heap st' ! m) = b_scope (heap st' ! x)"
    unfolding ext_def by blast
  have old: "map ((!) (heap st')) xs = map ((!) (heap st)) xs"
    if "list_all (\<lambda>x. x < length (heap st)) xs" for xs
    using that h by (induction xs) (simp_all add: nth_append)
  have new: "b_scope (heap st' ! x) \<in> S" if "x \<in> set ns \<union> set as" for x
  proof -
    from r that have x: "length (heap st) \<le> x" "x < length (heap st')" by auto
    then have "heap st' ! x = hs ! (x - length (heap st))" "x - length (heap st) < length hs"
      using h by (simp_all add: nth_append)
    then have "heap st' ! x \<in> set hs" by simp
    with s show ?thesis by blast
  qed
  have wn: "list_all (\<lambda>x. x < length (heap st)) (names st)"
    and wa: "list_all (\<lambda>x. x < length (heap st)) (assignments st)"
    using wf by (simp_all add: wf_state_def)
  have no: "names_out st' = names_out st @ map ((!) (heap st')) ns"
    using n old [OF wn] by (simp add: names_out_def deref_def)
  have ao: "assignments_out st' = assignments_out st @ map ((!) (heap st')) as"
    using a old [OF wa] by (simp add: assignments_out_def deref_def)
  have sc: "\<forall>b\<in>set (map ((!) (heap st')) ns) \<union> set (map ((!) (heap st')) as). b_scope b \<in> S"
    using new by auto
  have mt: "\<forall>a\<in>set (map ((!) (heap st')) as).
              \<exists>b\<in>set (names_out st'). b_name b = b_name a \<and> b_scope b = b_scope a"
  proof
    fix v assume "v \<in> set (map ((!) (heap st')) as)"
    then obtain x where x: "x \<in> set as" "v = heap st' ! x" by auto
    with m obtain k where k: "k \<in> set (names st')"
      "b_name (heap st' ! k) = b_name v" "b_scope (heap st' ! k) = b_scope v"
      by blast
    have "heap st' ! k \<in> set (names_out st')"
      using k(1) by (simp add: names_out_def deref_def)
    with k(2,3) show "\<exists>b\<in>set (names_out st'). b_name b = b_name v \<and> b_scope b = b_scope v"
      by blast
  qed
  show ?thesis
    using no ao b sc p mt by blast
qed

lemma walk_top_grows: "returns (walk_top ast st) (grows (insert PNone (fnames ast)) st)"
proof -
  have loop: "returns (for_loop (\<lambda>item. walk_item item PNone) items st)
                (grows (insert PNone (fnames ast)) st)"
    if "py_getitem ast (u ''body'') = Inr body" "py_iter body = Inr items" for body items
  proof (rule for_loop_grows)
    fix x s assume x: "x \<in> set items"
    have "fnames x \<subseteq> fnames ast"
      using py_iter_fnames [OF that(2) x] py_getitem_fnames [OF that(1)] by blast
    then show "returns (walk_item x PNone s) (grows (insert PNone (fnames ast)) s)"
      using traversal_grows(2) [of x PNone s] by (auto intro: returns_grows_mono)
  qed
  show ?thesis
    by (simp add: walk_top_def returns_simps) (simp add: leaf_returns loop)
qed

lemma wf_empty_state: "wf_state (empty_state reg)"
  by (simp add: wf_state_def empty_state_def)

lemma empty_state_out:
  "names_out (empty_state reg) = []" "assignments_out (empty_state reg) = []"
  "breakpoints (empty_state reg) = []"
  by (simp_all add: names_out_def assignments_out_def deref_def empty_state_def)

lemma AST_init_outputs:
  assumes "parse script = Inr ast" and "AST_init parse script reg = Inr st'"
  shows "(\<forall>b\<in>set (names_out st') \<union> set (assignments_out st'). b_scope b \<in> insert PNone (fnames ast)) \<and>
         (\<forall>bp\<in>set (breakpoints st'). bp_scope bp \<in> insert PNone (fnames ast)) \<and>
         (\<forall>a\<in>set (assignments_out st').
             \<exists>b\<in>set (names_out st'). b_name b = b_name a \<and> b_scope b = b_scope a)"
proof -
  have "walk_top ast (empty_state reg) = Inr st'"
    using assms by (simp add: AST_init_def init_ast_def)
  with walk_top_grows [of ast "empty_state reg"]
  have "grows (insert PNone (fnames ast)) (empty_state reg) st'"
    by (rule returnsD)
  then have "ext (insert PNone (fnames ast)) (empty_state reg) st'"
    using wf_empty_state by (simp add: grows_def)
  from ext_outputs [OF this wf_empty_state] show ?thesis
    by (auto simp: empty_state_out)
qed

lemma eval_var_and_function: "AST_init (parsed_as prog_var_and_function) (u ''var x = 5; ...'') None = Inr state_var_and_function"
    by (simp add: init_defs prog_var_and_function_def foo_decl_def func_decl_def tree_defs
        walk_simps handler_defs Let_def state_var_and_function_def valued_binding_def
        plain_binding_def assign_point_def)


section \<open>Scope labels\<close>




section \<open>Bindings and value assignments\<close>

lemma declarator_result:
  assumes d: "initialised_declarator decl n raw ln" and wf: "wf_state st"
  shows "declarator scope decl st =
     Inr (st\<lparr>heap := heap st @ [valued_binding n scope raw],
             names := (if plain_binding n scope \<in> set (names_out st) then names st
                       else names st @ [length (heap st)]),
             assignments := (if valued_binding n scope raw \<in> set (assignments_out st)
                             then assignments st else assignments st @ [length (heap st)]),
             breakpoints := add_breakpoint (assign_point ln scope) (breakpoints st)\<rparr>)"
proof -
  from d obtain target init where
    ty: "py_getitem decl (u ''type'') = Inr (PStr (u ''VariableDeclarator''))" and
    t: "py_getitem decl (u ''id'') = Inr target" and n: "py_getitem target (u ''name'') = Inr n" and
    i: "py_getitem decl (u ''init'') = Inr init" and r: "py_getitem init (u ''raw'') = Inr raw" and
    e: "end_line decl = Inr ln"
    by (auto simp: initialised_declarator_def split: sum.splits)
  have wn: "list_all (\<lambda>a. a < length (heap st)) (names st)"
    and wa: "list_all (\<lambda>a. a < length (heap st)) (assignments st)"
    using wf by (simp_all add: wf_state_def)
  have dn: "deref (st\<lparr>heap := heap st @ hs\<rparr>) (names st) = names_out st" for hs
    using deref_append_heap [OF wn, of hs] by (simp add: names_out_def)
  have da: "map ((!) (heap st @ hs)) (assignments st) = assignments_out st" for hs
    using deref_append_heap [OF wa, of hs] by (simp add: assignments_out_def deref_def)
  show ?thesis
    using ty t n i r e py_getitem_contains [OF ty] py_getitem_contains [OF i]
      py_getitem_contains [OF r]
    by (simp add: declarator_def set_breakpoint_end_line record_name_def record_value_def Let_def
        dn da deref_def [of _ "assignments st"] plain_binding_def valued_binding_def
        assign_point_def)
qed

lemma declarator_outputs:
  assumes d: "initialised_declarator decl n raw ln" and wf: "wf_state st"
  shows "\<exists>st'. declarator scope decl st = Inr st' \<and>
           valued_binding n scope raw \<in> set (assignments_out st') \<and>
           (plain_binding n scope \<notin> set (names_out st) \<longrightarrow>
              names st' = names st @ [length (heap st)] \<and>
              names_out st' = names_out st @ [valued_binding n scope raw] \<and>
              (valued_binding n scope raw \<notin> set (assignments_out st) \<longrightarrow>
                 assignments st' = assignments st @ [length (heap st)])) \<and>
           (plain_binding n scope \<in> set (names_out st) \<longrightarrow> names_out st' = names_out st)"
proof -
  define st' where "st' = st\<lparr>heap := heap st @ [valued_binding n scope raw],
             names := (if plain_binding n scope \<in> set (names_out st) then names st
                       else names st @ [length (heap st)]),
             assignments := (if valued_binding n scope raw \<in> set (assignments_out st)
                             then assignments st else assignments st @ [length (heap st)]),
             breakpoints := add_breakpoint (assign_point ln scope) (breakpoints st)\<rparr>"
  have r: "declarator scope decl st = Inr st'"
    unfolding st'_def by (rule declarator_result [OF d wf])
  have wn: "list_all (\<lambda>a. a < length (heap st)) (names st)"
    and wa: "list_all (\<lambda>a. a < length (heap st)) (assignments st)"
    using wf by (simp_all add: wf_state_def)
  have on: "map ((!) (heap st @ hs)) (names st) = names_out st" for hs
    using deref_append_heap [OF wn, of hs] by (simp add: names_out_def deref_def)
  have oa: "map ((!) (heap st @ hs)) (assignments st) = assignments_out st" for hs
    using deref_append_heap [OF wa, of hs] by (simp add: assignments_out_def deref_def)
  have 1: "valued_binding n scope raw \<in> set (assignments_out st')"
  proof (cases "valued_binding n scope raw \<in> set (assignments_out st)")
    case True
    then have "assignments_out st' = assignments_out st"
      by (simp add: st'_def assignments_out_def deref_def oa [unfolded assignments_out_def deref_def])
    with True show ?thesis by simp
  next
    case False
    then have "assignments_out st' = assignments_out st @ [valued_binding n scope raw]"
      by (simp add: st'_def assignments_out_def deref_def oa [unfolded assignments_out_def deref_def])
    then show ?thesis by simp
  qed
  have 2: "names_out st' = names_out st @ [valued_binding n scope raw]"
    "names st' = names st @ [length (heap st)]"
    if "plain_binding n scope \<notin> set (names_out st)"
    using that by (simp_all add: st'_def names_out_def deref_def on [unfolded names_out_def deref_def])
  have 3: "assignments st' = assignments st @ [length (heap st)]"
    if "valued_binding n scope raw \<notin> set (assignments_out st)"
    using that by (simp add: st'_def)
  have 4: "names_out st' = names_out st" if "plain_binding n scope \<in> set (names_out st)"
    using that by (simp add: st'_def names_out_def deref_def on [unfolded names_out_def deref_def])
  show ?thesis
    using r 1 2 3 4 by blast
qed

lemma initialised_declarator_x_5:
  "initialised_declarator declarator_x_5 (PStr (u ''x'')) (PStr (u ''5'')) (PInt 1)"
  by (simp add: initialised_declarator_def declarator_x_5_def end_line_def tree_defs)

text \<open>
  C10. The claim: every record of \<^verbatim>\<open>assignments\<close> is an element of \<^verbatim>\<open>names\<close>. The dict
  that gets the value is the one built for the declarator, which is in \<^verbatim>\<open>names\<close> only
  when no equal dict was there before. After \<^verbatim>\<open>var x;\<close> the declarator of
  \<^verbatim>\<open>var x = 5;\<close> finds the plain pair in \<^verbatim>\<open>names\<close>, appends nothing there, and appends
  its own dict with the value to \<^verbatim>\<open>assignments\<close>.
\<close>

theorem value_assignment_without_binding_record_counterexample:
  "map_sum id names_out (AST_init (parsed_as prog_redeclare) (u ''var x; var x = 5;'') None) =
     Inr [\<lparr>b_name = PStr (u ''x''), b_scope = PNone, b_value = None\<rparr>] \<and>
   map_sum id assignments_out (AST_init (parsed_as prog_redeclare) (u ''var x; var x = 5;'') None) =
     Inr [\<lparr>b_name = PStr (u ''x''), b_scope = PNone, b_value = Some (PStr (u ''5''))\<rparr>]"
  by (simp add: init_defs prog_redeclare_def tree_defs walk_simps handler_defs Let_def)

text \<open>
  C10, amended. Every record of \<^verbatim>\<open>assignments\<close> has a record of \<^verbatim>\<open>names\<close> with the same
  name and scope. A declarator whose initializer has raw text always puts the triple
  (name, scope, raw text) in \<^verbatim>\<open>assignments\<close>. When the plain pair was not yet in
  \<^verbatim>\<open>names\<close>, the same dict is appended to \<^verbatim>\<open>names\<close> (and to \<^verbatim>\<open>assignments\<close> if no equal
  triple was there), so \<^verbatim>\<open>names\<close> shows the triple; when the plain pair was already in
  \<^verbatim>\<open>names\<close>, \<^verbatim>\<open>names\<close> is read unchanged.
\<close>

theorem value_assignment_shares_fresh_binding_record:
  "(parse script = Inr ast \<and> AST_init parse script reg = Inr st0 \<longrightarrow>
      (\<forall>a\<in>set (assignments_out st0).
          \<exists>b\<in>set (names_out st0). b_name b = b_name a \<and> b_scope b = b_scope a)) \<and>
   (initialised_declarator decl n raw ln \<and> wf_state st \<longrightarrow>
      (\<exists>st'. declarator scope decl st = Inr st' \<and>
         valued_binding n scope raw \<in> set (assignments_out st') \<and>
         (plain_binding n scope \<notin> set (names_out st) \<longrightarrow>
            names st' = names st @ [length (heap st)] \<and>
            names_out st' = names_out st @ [valued_binding n scope raw] \<and>
            (valued_binding n scope raw \<notin> set (assignments_out st) \<longrightarrow>
               assignments st' = assignments st @ [length (heap st)])) \<and>
         (plain_binding n scope \<in> set (names_out st) \<longrightarrow> names_out st' = names_out st)))"
proof (intro conjI impI)
  assume "parse script = Inr ast \<and> AST_init parse script reg = Inr st0"
  then have p: "parse script = Inr ast" and a: "AST_init parse script reg = Inr st0"
    by blast+
  from AST_init_outputs [OF p a]
  show "\<forall>a\<in>set (assignments_out st0).
          \<exists>b\<in>set (names_out st0). b_name b = b_name a \<and> b_scope b = b_scope a"
    by blast
next
  assume "initialised_declarator decl n raw ln \<and> wf_state st"
  then have d: "initialised_declarator decl n raw ln" and wf: "wf_state st"
    by blast+
  show "\<exists>st'. declarator scope decl st = Inr st' \<and>
         valued_binding n scope raw \<in> set (assignments_out st') \<and>
         (plain_binding n scope \<notin> set (names_out st) \<longrightarrow>
            names st' = names st @ [length (heap st)] \<and>
            names_out st' = names_out st @ [valued_binding n scope raw] \<and>
            (valued_binding n scope raw \<notin> set (assignments_out st) \<longrightarrow>
               assignments st' = assignments st @ [length (heap st)])) \<and>
         (plain_binding n scope \<in> set (names_out st) \<longrightarrow> names_out st' = names_out st)"
    by (rule declarator_outputs [OF d wf])
qed

theorem value_assignment_shares_fresh_binding_record_witness:
  "AST_init (parsed_as prog_var_and_function) (u ''var x = 5; ...'') None = Inr state_var_and_function \<and>
   (\<exists>b. b \<in> set (names_out state_var_and_function) \<and> b_name b = PStr (u ''x'') \<and> b_scope b = PNone) \<and>
   (\<exists>st'. declarator PNone declarator_x_5 (empty_state None) = Inr st' \<and>
      names st' = [0] \<and> assignments st' = [0] \<and>
      names_out st' = [valued_binding (PStr (u ''x'')) PNone (PStr (u ''5''))] \<and>
      valued_binding (PStr (u ''x'')) PNone (PStr (u ''5'')) \<in> set (assignments_out st')) \<and>
   (\<exists>st'. declarator PNone declarator_x_5 state_declared_x = Inr st' \<and>
      names_out st' = [plain_binding (PStr (u ''x'')) PNone] \<and>
      valued_binding (PStr (u ''x'')) PNone (PStr (u ''5'')) \<in> set (assignments_out st'))"
proof -
  let ?parse = "parsed_as prog_var_and_function" and ?script = "u ''var x = 5; ...''"
  let ?v = "valued_binding (PStr (u ''x'')) PNone (PStr (u ''5''))"
  have p: "?parse ?script = Inr prog_var_and_function"
    by (simp add: parsed_as_def)
  note s1 = value_assignment_shares_fresh_binding_record [where parse = ?parse and script = ?script
      and ast = prog_var_and_function and reg = None and ?st0.0 = state_var_and_function,
      THEN conjunct1, THEN mp, OF conjI [OF p eval_var_and_function]]
  have a: "?v \<in> set (assignments_out state_var_and_function)"
    by (simp add: state_var_and_function_def assignments_out_def deref_def)
  from s1 a have "\<exists>b\<in>set (names_out state_var_and_function). b_name b = b_name ?v \<and> b_scope b = b_scope ?v"
    by (rule bspec)
  then have r1: "\<exists>b. b \<in> set (names_out state_var_and_function) \<and> b_name b = PStr (u ''x'') \<and> b_scope b = PNone"
    by (simp add: valued_binding_def Bex_def)
  note s2 = value_assignment_shares_fresh_binding_record [where decl = declarator_x_5
      and n = "PStr (u ''x'')" and raw = "PStr (u ''5'')" and ln = "PInt 1"
      and st = "empty_state None" and scope = PNone,
      THEN conjunct2, THEN mp, OF conjI [OF initialised_declarator_x_5 wf_empty_state]]
  have e: "plain_binding (PStr (u ''x'')) PNone \<notin> set (names_out (empty_state None))"
    "?v \<notin> set (assignments_out (empty_state None))"
    "names (empty_state None) = []" "assignments (empty_state None) = []"
    "heap (empty_state None) = []"
    by (simp_all add: empty_state_out) (simp_all add: empty_state_def)
  from s2 obtain st' where st': "declarator PNone declarator_x_5 (empty_state None) = Inr st'"
    "?v \<in> set (assignments_out st')"
    "plain_binding (PStr (u ''x'')) PNone \<notin> set (names_out (empty_state None)) \<longrightarrow>
       names st' = names (empty_state None) @ [length (heap (empty_state None))] \<and>
       names_out st' = names_out (empty_state None) @ [?v] \<and>
       (?v \<notin> set (assignments_out (empty_state None)) \<longrightarrow>
          assignments st' = assignments (empty_state None) @ [length (heap (empty_state None))])"
    by blast
  from st'(3) e have "names st' = [0]" "assignments st' = [0]" "names_out st' = [?v]"
    by (simp_all add: empty_state_out)
  with st'(1,2) have r2: "\<exists>st'. declarator PNone declarator_x_5 (empty_state None) = Inr st' \<and>
      names st' = [0] \<and> assignments st' = [0] \<and> names_out st' = [?v] \<and>
      ?v \<in> set (assignments_out st')"
    by blast
  have wf: "wf_state state_declared_x"
    by (simp add: wf_state_def state_declared_x_def)
  note s3 = value_assignment_shares_fresh_binding_record [where decl = declarator_x_5
      and n = "PStr (u ''x'')" and raw = "PStr (u ''5'')" and ln = "PInt 1"
      and st = state_declared_x and scope = PNone,
      THEN conjunct2, THEN mp, OF conjI [OF initialised_declarator_x_5 wf]]
  have no: "names_out state_declared_x = [plain_binding (PStr (u ''x'')) PNone]"
    by (simp add: state_declared_x_def names_out_def deref_def)
  from s3 obtain st'' where st'': "declarator PNone declarator_x_5 state_declared_x = Inr st''"
    "?v \<in> set (assignments_out st'')"
    "plain_binding (PStr (u ''x'')) PNone \<in> set (names_out state_declared_x) \<longrightarrow>
       names_out st'' = names_out state_declared_x"
    by blast
  from st''(3) no have "names_out st'' = [plain_binding (PStr (u ''x'')) PNone]"
    by simp
  with st''(1,2) have r3: "\<exists>st'. declarator PNone declarator_x_5 state_declared_x = Inr st' \<and>
      names_out st' = [plain_binding (PStr (u ''x'')) PNone] \<and> ?v \<in> set (assignments_out st')"
    by blast
  show ?thesis
    using eval_var_and_function r1 r2 r3 by (intro conjI)
qed

end
